theory Spec2Isabelle
  imports Complex_Main
begin

section \<open>Reader: sequential event reading, systematic variations and the cached weight\<close>

text \<open>
  A shallow embedding of \<^verbatim>\<open>Reader/Reader.cpp\<close>. The class \<^verbatim>\<open>Reader\<close> becomes a
  record of its data members, every member function a function from the record to the
  updated record. Anything that stops a call (a thrown \<^verbatim>\<open>runtime_error\<close>,
  \<^verbatim>\<open>std::terminate\<close> out of a \<^verbatim>\<open>noexcept\<close> function, an operation the C++ standard
  leaves undefined) is a value \<open>Inl e\<close> of the result type.

  Numbers: \<^verbatim>\<open>double\<close> and \<^verbatim>\<open>float\<close> quantities are idealised as \<^typ>\<open>real\<close>, so
  that products are exact and equality is the equality of the values. Counters are \<^typ>\<open>nat\<close> or \<^typ>\<open>int\<close> without
  wrap-around (entry counts stay far below the machine range).
\<close>

subsection \<open>Physics objects\<close>

text \<open>
  Modelled from the spec: the classes \<^verbatim>\<open>Lepton\<close>, \<^verbatim>\<open>Jet\<close> and \<^verbatim>\<open>MET\<close> and the enumerations
  \<^verbatim>\<open>SystType\<close> and \<^verbatim>\<open>SystDirection\<close> are declared in headers that are not part of the
  sources. They are plain value records; the constructor arguments are in the order in which
  \<^verbatim>\<open>ReadNextEvent\<close> passes them to \<^verbatim>\<open>emplace_back\<close> and \<^verbatim>\<open>MET::Set\<close>. The systematic
  types are \<open>Nominal\<close> (no variation), \<open>JEC\<close> (jet energy correction) and further
  model-specific ones, here \<open>OtherSyst n\<close>.
\<close>

datatype Lepton =
  Lepton (lepton_flavour: int) (lepton_pt: real) (lepton_eta: real) (lepton_phi: real)
    (lepton_iso: real)

datatype Jet =
  Jet (jet_pt: real) (jet_eta: real) (jet_phi: real) (jet_btag: real) (jet_flavour: int)

datatype MET = MET (Pt: real) (Phi: real)

datatype SystType = Nominal | JEC | OtherSyst nat

datatype SystDirection = Up | Down

text \<open>
  Modelled from the spec: \<^verbatim>\<open>operator<\<close> of \<^verbatim>\<open>Lepton\<close> and of \<^verbatim>\<open>Jet\<close> (used by
  \<^verbatim>\<open>std::sort\<close>) is missing with the headers; the objects compare by transverse momentum
  only.
\<close>

definition lepton_less :: "Lepton \<Rightarrow> Lepton \<Rightarrow> bool" where
  "lepton_less a b = (lepton_pt a < lepton_pt b)"

definition jet_less :: "Jet \<Rightarrow> Jet \<Rightarrow> bool" where
  "jet_less a b = (jet_pt a < jet_pt b)"

subsection \<open>The source file and its trees\<close>

text \<open>
  The read buffers of one lepton block and of one jet block: the size and the per-object
  arrays. The same record types hold the values of the corresponding branches in one entry
  of a tree.
\<close>

record LeptonBuffers =
  lepSize :: int
  lepFlavour :: "int list"
  lepPt :: "real list"
  lepEta :: "real list"
  lepPhi :: "real list"
  lepIso :: "real list"

record JetBuffers =
  jetSize :: int
  jetPt :: "real list"
  jetEta :: "real list"
  jetPhi :: "real list"
  jetBTag :: "real list"
  jetFlavour :: "int list"

text \<open>
  One entry of a tree, by branch: \<^verbatim>\<open>nlepton\<close>, \<^verbatim>\<open>lept_*\<close>; \<^verbatim>\<open>njets\<close>, \<^verbatim>\<open>jet_*\<close>;
  \<^verbatim>\<open>met_pt\<close>, \<^verbatim>\<open>met_phi\<close>; \<^verbatim>\<open>nvertex\<close>; and the branches that only
  simulation is read from: \<^verbatim>\<open>jesup_njets\<close>, \<^verbatim>\<open>jet_jesup_*\<close>, \<^verbatim>\<open>jesdown_njets\<close>,
  \<^verbatim>\<open>jet_jesdown_*\<close>, \<^verbatim>\<open>met_jesup_*\<close>, \<^verbatim>\<open>met_jesdown_*\<close>, \<^verbatim>\<open>evtweight\<close>.
\<close>

record Entry =
  br_lept :: LeptonBuffers
  br_jet :: JetBuffers
  br_met_pt :: real
  br_met_phi :: real
  br_nvertex :: nat
  br_jet_jesup :: JetBuffers
  br_jet_jesdown :: JetBuffers
  br_met_jesup_pt :: real
  br_met_jesup_phi :: real
  br_met_jesdown_pt :: real
  br_met_jesdown_phi :: real
  br_evtweight :: real

type_synonym TTree = "Entry list"

text \<open>
  A \<^verbatim>\<open>TFile\<close>: whether it is a zombie, and its trees by name, in an association list.
  \<open>Get\<close> is \<^verbatim>\<open>dynamic_cast<TTree *>(srcFile->Get(name))\<close>: \<open>None\<close> is the null pointer.
\<close>

record TFile =
  IsZombie :: bool
  trees :: "(string \<times> TTree) list"

definition Get :: "TFile \<Rightarrow> string \<Rightarrow> TTree option" where
  "Get f name = map_of (trees f) name"

subsection \<open>Errors\<close>

text \<open>
  What the C++ standard leaves undefined is kept apart from the exceptions: the model stops
  there and says which operation it was.
\<close>

datatype undefined_kind =
    DerefEnd          \<comment> \<open>\<^verbatim>\<open>*curTreeNameIt\<close> with the iterator at \<^verbatim>\<open>treeNames.end()\<close>\<close>
  | IncrementEnd      \<comment> \<open>\<^verbatim>\<open>++curTreeNameIt\<close> with the iterator at \<^verbatim>\<open>treeNames.end()\<close>\<close>
  | NullFile          \<comment> \<open>\<^verbatim>\<open>srcFile->\<close> through a null pointer\<close>
  | NullTree          \<comment> \<open>\<^verbatim>\<open>curTree->\<close> through a null pointer\<close>
  | EntryOutOfRange   \<comment> \<open>\<^verbatim>\<open>GetEntry(i)\<close> with \<open>i\<close> not below the number of entries\<close>
  | BufferOverrun     \<comment> \<open>a buffer read at an index the loaded entry did not fill\<close>

text \<open>
  The two \<^verbatim>\<open>runtime_error\<close>s of the source are the spec's \<open>SourceInvalidError\<close> ("The
  source file does not exist or is corrupted.") and \<open>MissingPartitionError\<close> ("Cannot find
  tree ..."). \<open>ConfigurationError\<close> is the spec's third kind. \<open>Terminated\<close> is
  \<^verbatim>\<open>std::terminate\<close>, called when an exception leaves a \<^verbatim>\<open>noexcept\<close> function.
\<close>

datatype error =
    SourceInvalidError
  | MissingPartitionError string
  | ConfigurationError
  | Terminated
  | Undefined undefined_kind

subsection \<open>The state of a Reader\<close>

text \<open>
  The data members of \<^verbatim>\<open>Reader\<close>. The iterator \<^verbatim>\<open>curTreeNameIt\<close> is an index into
  \<open>treeNames\<close>, with \<open>length treeNames\<close> for \<^verbatim>\<open>treeNames.end()\<close>. \<open>curTree\<close> holds the
  tree the \<^verbatim>\<open>unique_ptr\<close> points to (\<open>None\<close>: null). \<open>csvCalls\<close> is not a member of the class:
  it counts the calls of \<^verbatim>\<open>csvReweighter.CalculateJetWeight\<close>, as a test double of the
  reweighting model would.
\<close>

record Reader =
  srcFile :: "TFile option"
  treeNames :: "string list"
  curTreeNameIt :: nat
  isMC :: bool
  curSystType :: SystType
  curSystDirection :: SystDirection
  applyBTagReweighting :: bool
  curTree :: "TTree option"
  nEntries :: nat
  curEntry :: nat
  lepBuf :: LeptonBuffers
  jetBuf :: JetBuffers
  metPt :: real
  metPhi :: real
  nPV :: nat
  jetJECUpBuf :: JetBuffers
  jetJECDownBuf :: JetBuffers
  metJECUpPt :: real
  metJECUpPhi :: real
  metJECDownPt :: real
  metJECDownPhi :: real
  rawWeight :: real
  leptons :: "Lepton list"
  jets :: "Jet list"
  jetsJECUp :: "Jet list"
  jetsJECDown :: "Jet list"
  met :: MET
  metJECUp :: MET
  metJECDown :: MET
  weight :: real
  weightCached :: bool
  csvCalls :: nat

subsection \<open>Binding a tree: \<^verbatim>\<open>Reader::GetTree\<close>\<close>

text \<open>
  \<^verbatim>\<open>GetTree\<close> resets \<open>curTree\<close> to the tree of the given name, throws when there is
  none, sets the two event counters and, last, sets \<open>weight\<close> to 1. The calls of
  \<^verbatim>\<open>SetBranchAddress\<close> bind the buffers; which buffers are bound depends on \<open>isMC\<close> only,
  and \<open>fill_buffers\<close> below is what \<^verbatim>\<open>TTree::GetEntry\<close> then writes through the bindings.
\<close>

definition GetTree :: "string \<Rightarrow> Reader \<Rightarrow> error + Reader" where
  "GetTree name r =
     (case srcFile r of
        None \<Rightarrow> Inl (Undefined NullFile)
      | Some f \<Rightarrow>
          (case Get f name of
             None \<Rightarrow> Inl (MissingPartitionError name)
           | Some t \<Rightarrow>
               Inr (r\<lparr>curTree := Some t, nEntries := length t, curEntry := 0, weight := 1\<rparr>)))"

text \<open>\<^verbatim>\<open>*curTreeNameIt\<close>.\<close>

definition deref :: "Reader \<Rightarrow> error + string" where
  "deref r =
     (if curTreeNameIt r < length (treeNames r) then Inr (treeNames r ! curTreeNameIt r)
      else Inl (Undefined DerefEnd))"

subsection \<open>The constructors\<close>

text \<open>
  The constructor initialises \<open>srcFile\<close>, \<open>treeNames\<close>, \<open>curTreeNameIt\<close>, \<open>isMC\<close>, the
  systematic variation and \<open>applyBTagReweighting\<close>; the vectors and the \<^verbatim>\<open>unique_ptr\<close> are
  default-constructed (empty, null). What the remaining members hold at that point is decided
  by the header, which is not part of the sources: it is the parameter \<open>mem\<close>. The check of
  the source file comes before the first name is read.
\<close>

definition new_Reader :: "Reader \<Rightarrow> TFile option \<Rightarrow> string list \<Rightarrow> bool \<Rightarrow> error + Reader" where
  "new_Reader mem srcFile0 treeNames0 isMC0 =
     (let r = mem\<lparr>srcFile := srcFile0, treeNames := treeNames0, curTreeNameIt := 0,
                  isMC := isMC0, curSystType := Nominal, curSystDirection := Up,
                  applyBTagReweighting := True, curTree := None,
                  leptons := [], jets := [], jetsJECUp := [], jetsJECDown := []\<rparr>
      in case srcFile0 of
           None \<Rightarrow> Inl SourceInvalidError
         | Some f \<Rightarrow>
             if IsZombie f then Inl SourceInvalidError
             else (case deref r of
                     Inl e \<Rightarrow> Inl e
                   | Inr name \<Rightarrow> GetTree name r))"

definition new_Reader1 :: "Reader \<Rightarrow> TFile option \<Rightarrow> string \<Rightarrow> bool \<Rightarrow> error + Reader" where
  "new_Reader1 mem srcFile0 treeName isMC0 = new_Reader mem srcFile0 [treeName] isMC0"

subsection \<open>Reading an event: \<^verbatim>\<open>Reader::ReadNextEvent\<close>\<close>

text \<open>
  Lines 38 to 46: when the current tree has no entry left, the iterator is incremented; at
  the end of the list the function returns false (\<open>Inr (False, _)\<close> here), otherwise the next
  tree is bound. \<open>Inr (True, _)\<close> means that the function goes on to read an entry. The
  number of entries of the newly bound tree is not looked at.
\<close>

definition next_tree :: "Reader \<Rightarrow> error + (bool \<times> Reader)" where
  "next_tree r =
     (if curEntry r = nEntries r then
        (if curTreeNameIt r < length (treeNames r) then
           (let r1 = r\<lparr>curTreeNameIt := Suc (curTreeNameIt r)\<rparr> in
            if curTreeNameIt r1 = length (treeNames r1) then Inr (False, r1)
            else (case deref r1 of
                    Inl e \<Rightarrow> Inl e
                  | Inr name \<Rightarrow>
                      (case GetTree name r1 of
                         Inl e \<Rightarrow> Inl e
                       | Inr r2 \<Rightarrow> Inr (True, r2))))
         else Inl (Undefined IncrementEnd))
      else Inr (True, r))"

text \<open>
  What \<^verbatim>\<open>GetEntry\<close> writes through the branch addresses set in \<^verbatim>\<open>GetTree\<close>: the
  branches of the second group are bound only when \<open>isMC\<close> holds.
\<close>

definition fill_buffers :: "Entry \<Rightarrow> Reader \<Rightarrow> Reader" where
  "fill_buffers e r =
     (let r1 = r\<lparr>lepBuf := br_lept e, jetBuf := br_jet e, metPt := br_met_pt e,
                 metPhi := br_met_phi e, nPV := br_nvertex e\<rparr>
      in if isMC r then
           r1\<lparr>jetJECUpBuf := br_jet_jesup e, jetJECDownBuf := br_jet_jesdown e,
              metJECUpPt := br_met_jesup_pt e, metJECUpPhi := br_met_jesup_phi e,
              metJECDownPt := br_met_jesdown_pt e, metJECDownPhi := br_met_jesdown_phi e,
              rawWeight := br_evtweight e\<rparr>
         else r1)"

text \<open>
  Modelled from the spec: \<^verbatim>\<open>TTree::GetEntry\<close> belongs to the storage library. The spec's
  contract for loading entry \<open>i\<close>: it materialises the entry into the bound buffers, and is
  undefined or fails for \<open>i\<close> outside of \<open>[0, EntryCount)\<close>.
\<close>

definition GetEntry :: "nat \<Rightarrow> Reader \<Rightarrow> error + Reader" where
  "GetEntry i r =
     (case curTree r of
        None \<Rightarrow> Inl (Undefined NullTree)
      | Some t \<Rightarrow>
          if i < length t then Inr (fill_buffers (t ! i) r)
          else Inl (Undefined EntryOutOfRange))"

text \<open>
  The element \<open>i\<close> of the arrays of a block, as an object. An index beyond what the entry
  filled is a read outside of the loaded data.
\<close>

definition lepton_at :: "LeptonBuffers \<Rightarrow> nat \<Rightarrow> Lepton option" where
  "lepton_at b i =
     (if i < length (lepFlavour b) \<and> i < length (lepPt b) \<and> i < length (lepEta b)
         \<and> i < length (lepPhi b) \<and> i < length (lepIso b)
      then Some (Lepton (lepFlavour b ! i) (lepPt b ! i) (lepEta b ! i) (lepPhi b ! i)
                   (lepIso b ! i))
      else None)"

definition jet_at :: "JetBuffers \<Rightarrow> nat \<Rightarrow> Jet option" where
  "jet_at b i =
     (if i < length (jetPt b) \<and> i < length (jetEta b) \<and> i < length (jetPhi b)
         \<and> i < length (jetBTag b) \<and> i < length (jetFlavour b)
      then Some (Jet (jetPt b ! i) (jetEta b ! i) (jetPhi b ! i) (jetBTag b ! i)
                   (jetFlavour b ! i))
      else None)"

text \<open>
  The loop \<^verbatim>\<open>for (int i = 0; i < size; ++i) v.emplace_back(...)\<close> on a cleared vector:
  \<open>read_objects get n\<close> holds the objects at the indices \<open>0, ..., n - 1\<close>, in this order.
\<close>

fun read_objects :: "(nat \<Rightarrow> 'a option) \<Rightarrow> nat \<Rightarrow> error + 'a list" where
  "read_objects get 0 = Inr []"
| "read_objects get (Suc n) =
     (case read_objects get n of
        Inl e \<Rightarrow> Inl e
      | Inr acc \<Rightarrow>
          (case get n of
             None \<Rightarrow> Inl (Undefined BufferOverrun)
           | Some x \<Rightarrow> Inr (acc @ [x])))"

definition read_leptons :: "LeptonBuffers \<Rightarrow> error + Lepton list" where
  "read_leptons b = read_objects (lepton_at b) (nat (lepSize b))"

definition read_jets :: "JetBuffers \<Rightarrow> error + Jet list" where
  "read_jets b = read_objects (jet_at b) (nat (jetSize b))"

text \<open>Lines 55 to 82: the objects are copied from the buffers.\<close>

definition copy_objects :: "Reader \<Rightarrow> error + Reader" where
  "copy_objects r =
     (case read_leptons (lepBuf r) of
        Inl e \<Rightarrow> Inl e
      | Inr ls \<Rightarrow>
     (case read_jets (jetBuf r) of
        Inl e \<Rightarrow> Inl e
      | Inr js \<Rightarrow>
          (let r1 = r\<lparr>leptons := ls, jets := js, met := MET (metPt r) (metPhi r)\<rparr> in
           if isMC r then
             (case read_jets (jetJECUpBuf r) of
                Inl e \<Rightarrow> Inl e
              | Inr ups \<Rightarrow>
             (case read_jets (jetJECDownBuf r) of
                Inl e \<Rightarrow> Inl e
              | Inr downs \<Rightarrow>
                  Inr (r1\<lparr>jetsJECUp := ups, jetsJECDown := downs,
                          metJECUp := MET (metJECUpPt r) (metJECUpPhi r),
                          metJECDown := MET (metJECDownPt r) (metJECDownPhi r)\<rparr>)))
           else Inr r1)))"

text \<open>
  \<^verbatim>\<open>std::sort\<close> puts a range into ascending order of \<^verbatim>\<open>operator<\<close>; which of the
  permutations it produces for equivalent elements is up to the library. The model is an
  insertion sort. The source sorts the reversed range \<^verbatim>\<open>(v.rbegin(), v.rend())\<close>.
\<close>

fun insert_sorted :: "('a \<Rightarrow> 'a \<Rightarrow> bool) \<Rightarrow> 'a \<Rightarrow> 'a list \<Rightarrow> 'a list" where
  "insert_sorted lt x [] = [x]"
| "insert_sorted lt x (y # ys) =
     (if lt x y then x # y # ys else y # insert_sorted lt x ys)"

fun std_sort :: "('a \<Rightarrow> 'a \<Rightarrow> bool) \<Rightarrow> 'a list \<Rightarrow> 'a list" where
  "std_sort lt [] = []"
| "std_sort lt (x # xs) = insert_sorted lt x (std_sort lt xs)"

definition sort_reversed :: "('a \<Rightarrow> 'a \<Rightarrow> bool) \<Rightarrow> 'a list \<Rightarrow> 'a list" where
  "sort_reversed lt v = rev (std_sort lt (rev v))"

text \<open>Lines 86 to 93.\<close>

definition sort_objects :: "Reader \<Rightarrow> Reader" where
  "sort_objects r =
     (let r1 = r\<lparr>leptons := sort_reversed lepton_less (leptons r),
                 jets := sort_reversed jet_less (jets r)\<rparr>
      in if isMC r then
           r1\<lparr>jetsJECUp := sort_reversed jet_less (jetsJECUp r),
              jetsJECDown := sort_reversed jet_less (jetsJECDown r)\<rparr>
         else r1)"

definition ReadNextEvent :: "Reader \<Rightarrow> error + (bool \<times> Reader)" where
  "ReadNextEvent r =
     (case next_tree r of
        Inl e \<Rightarrow> Inl e
      | Inr (go, r1) \<Rightarrow>
          if \<not> go then Inr (False, r1)
          else (case GetEntry (curEntry r1) r1 of
                  Inl e \<Rightarrow> Inl e
                | Inr r2 \<Rightarrow>
                    (case copy_objects (r2\<lparr>curEntry := Suc (curEntry r2)\<rparr>) of
                       Inl e \<Rightarrow> Inl e
                     | Inr r3 \<Rightarrow> Inr (True, (sort_objects r3)\<lparr>weightCached := False\<rparr>))))"

subsection \<open>\<^verbatim>\<open>Reader::Rewind\<close>\<close>

text \<open>
  \<^verbatim>\<open>Rewind\<close> is \<^verbatim>\<open>noexcept\<close>: an exception of \<^verbatim>\<open>GetTree\<close> ends the program.
\<close>

definition noexcept :: "error + 'a \<Rightarrow> error + 'a" where
  "noexcept res =
     (case res of
        Inl (Undefined u) \<Rightarrow> Inl (Undefined u)
      | Inl _ \<Rightarrow> Inl Terminated
      | Inr x \<Rightarrow> Inr x)"

definition Rewind :: "Reader \<Rightarrow> error + Reader" where
  "Rewind r =
     (let r1 = r\<lparr>curTreeNameIt := 0, curTree := None\<rparr> in
      case deref r1 of
        Inl e \<Rightarrow> Inl e
      | Inr name \<Rightarrow> noexcept (GetTree name r1))"

subsection \<open>Systematic variations and the accessors\<close>

definition SetSystematics :: "SystType \<Rightarrow> SystDirection \<Rightarrow> Reader \<Rightarrow> Reader" where
  "SetSystematics systType systDirection r =
     (let r1 = r\<lparr>curSystType := systType, curSystDirection := systDirection\<rparr>;
          r2 = (if curSystType r1 = Nominal then r1\<lparr>curSystDirection := Up\<rparr> else r1)
      in r2\<lparr>weightCached := False\<rparr>)"

definition GetLeptons :: "Reader \<Rightarrow> Lepton list" where
  "GetLeptons r = leptons r"

definition GetJets :: "Reader \<Rightarrow> Jet list" where
  "GetJets r =
     (if isMC r \<and> curSystType r = JEC then
        (if curSystDirection r = Up then jetsJECUp r else jetsJECDown r)
      else jets r)"

definition GetMET :: "Reader \<Rightarrow> MET" where
  "GetMET r =
     (if isMC r \<and> curSystType r = JEC then
        (if curSystDirection r = Up then metJECUp r else metJECDown r)
      else met r)"

definition GetNumPV :: "Reader \<Rightarrow> nat" where
  "GetNumPV r = nPV r"

definition SwitchBTagReweighting :: "bool \<Rightarrow> Reader \<Rightarrow> Reader" where
  "SwitchBTagReweighting on r = r\<lparr>applyBTagReweighting := on\<rparr>"

subsection \<open>The event weight: \<^verbatim>\<open>Reader::GetWeight\<close>\<close>

text \<open>
  The reweighting model \<^verbatim>\<open>csvReweighter.CalculateJetWeight\<close> is not part of the sources:
  it is the parameter \<open>calc\<close>, a function of the jet and the variation. The loop over the
  jets carries the running weight and the number of calls made.
\<close>

type_synonym reweighter = "Jet \<Rightarrow> SystType \<Rightarrow> SystDirection \<Rightarrow> real"

fun btag_loop :: "reweighter \<Rightarrow> SystType \<Rightarrow> SystDirection \<Rightarrow> Jet list \<Rightarrow> real \<times> nat \<Rightarrow> real \<times> nat" where
  "btag_loop calc t d [] (w, n) = (w, n)"
| "btag_loop calc t d (j # js) (w, n) =
     (let perJetBTagWeight = calc j t d
      in btag_loop calc t d js
           (if perJetBTagWeight \<noteq> 0 then w * perJetBTagWeight else w, Suc n))"

text \<open>Lines 186 to 198: the weight is recalculated from the raw weight.\<close>

definition recomputed :: "reweighter \<Rightarrow> Reader \<Rightarrow> real \<times> nat" where
  "recomputed calc r =
     (if applyBTagReweighting r then
        btag_loop calc (curSystType r) (curSystDirection r) (jets r) (rawWeight r, csvCalls r)
      else (rawWeight r, csvCalls r))"

definition GetWeight :: "reweighter \<Rightarrow> Reader \<Rightarrow> real \<times> Reader" where
  "GetWeight calc r =
     (if \<not> isMC r then (1, r)
      else if weightCached r then (weight r, r)
      else
        (let (w, n) = recomputed calc r;
             r1 = r\<lparr>weight := w, csvCalls := n, weightCached := True\<rparr>
         in (weight r1, r1)))"

subsection \<open>Sequences of calls\<close>

text \<open>
  A client of the class calls its member functions one after the other. \<open>call\<close> is one
  call with its return value, \<open>run\<close> a sequence of calls that stops at the first one that does
  not return, and \<open>session\<close> a sequence of calls on a newly constructed Reader.
\<close>

datatype op =
    OpReadNextEvent
  | OpRewind
  | OpSetSystematics SystType SystDirection
  | OpSwitchBTagReweighting bool
  | OpGetWeight

datatype answer = Bool bool | Unit | Weight real

fun call :: "reweighter \<Rightarrow> op \<Rightarrow> Reader \<Rightarrow> error + (answer \<times> Reader)" where
  "call calc OpReadNextEvent r =
     (case ReadNextEvent r of Inl e \<Rightarrow> Inl e | Inr (b, r1) \<Rightarrow> Inr (Bool b, r1))"
| "call calc OpRewind r =
     (case Rewind r of Inl e \<Rightarrow> Inl e | Inr r1 \<Rightarrow> Inr (Unit, r1))"
| "call calc (OpSetSystematics t d) r = Inr (Unit, SetSystematics t d r)"
| "call calc (OpSwitchBTagReweighting on) r = Inr (Unit, SwitchBTagReweighting on r)"
| "call calc OpGetWeight r = (case GetWeight calc r of (w, r1) \<Rightarrow> Inr (Weight w, r1))"

fun run :: "reweighter \<Rightarrow> op list \<Rightarrow> Reader \<Rightarrow> error + (answer list \<times> Reader)" where
  "run calc [] r = Inr ([], r)"
| "run calc (c # cs) r =
     (case call calc c r of
        Inl e \<Rightarrow> Inl e
      | Inr (a, r1) \<Rightarrow>
          (case run calc cs r1 of
             Inl e \<Rightarrow> Inl e
           | Inr (as, r2) \<Rightarrow> Inr (a # as, r2)))"

definition session ::
  "reweighter \<Rightarrow> Reader \<Rightarrow> TFile option \<Rightarrow> string list \<Rightarrow> bool \<Rightarrow> op list
     \<Rightarrow> error + (answer list \<times> Reader)" where
  "session calc mem file names mc cs =
     (case new_Reader mem file names mc of
        Inl e \<Rightarrow> Inl e
      | Inr r \<Rightarrow> run calc cs r)"

text \<open>
  The calls that make the cached weight out of date: a \<^verbatim>\<open>ReadNextEvent\<close> that returned
  true, and every \<^verbatim>\<open>SetSystematics\<close>.
\<close>

fun invalidates :: "op \<Rightarrow> answer \<Rightarrow> bool" where
  "invalidates OpReadNextEvent a = (a = Bool True)"
| "invalidates (OpSetSystematics t d) a = True"
| "invalidates c a = False"

text \<open>
  Two Readers hold the same decoded event: the same leptons, nominal jets, nominal missing
  transverse energy and number of primary vertices, and for simulation also the same jets and
  missing transverse energy of the two shifted energy scales and the same raw weight.
\<close>

definition same_event :: "Reader \<Rightarrow> Reader \<Rightarrow> bool" where
  "same_event a b =
     (leptons a = leptons b \<and> jets a = jets b \<and> met a = met b \<and> nPV a = nPV b
      \<and> (if isMC a then
            jetsJECUp a = jetsJECUp b \<and> jetsJECDown a = jetsJECDown b
            \<and> metJECUp a = metJECUp b \<and> metJECDown a = metJECDown b
            \<and> rawWeight a = rawWeight b
          else True))"

subsection \<open>Readers at the same place of the same source\<close>

text \<open>
  Two Readers are at the same place when they agree on the source file, the names of the
  trees, the kind of sample, the current name, the current tree and the two event counters.
  Their read buffers are the same when the buffers bound for the kind of sample are.
\<close>

definition same_cursor :: "Reader \<Rightarrow> Reader \<Rightarrow> bool" where
  "same_cursor a b =
     (srcFile a = srcFile b \<and> treeNames a = treeNames b \<and> isMC a = isMC b
      \<and> curTreeNameIt a = curTreeNameIt b \<and> curTree a = curTree b
      \<and> nEntries a = nEntries b \<and> curEntry a = curEntry b)"

definition same_buffers :: "Reader \<Rightarrow> Reader \<Rightarrow> bool" where
  "same_buffers a b =
     (lepBuf a = lepBuf b \<and> jetBuf a = jetBuf b \<and> metPt a = metPt b \<and> metPhi a = metPhi b
      \<and> nPV a = nPV b
      \<and> (if isMC a then
            jetJECUpBuf a = jetJECUpBuf b \<and> jetJECDownBuf a = jetJECDownBuf b
            \<and> metJECUpPt a = metJECUpPt b \<and> metJECUpPhi a = metJECUpPhi b
            \<and> metJECDownPt a = metJECDownPt b \<and> metJECDownPhi a = metJECDownPhi b
            \<and> rawWeight a = rawWeight b
          else True))"

subsection \<open>Reading a whole stream\<close>

text \<open>
  \<open>read_trace n r\<close> is the outcome of \<open>n\<close> consecutive calls of \<^verbatim>\<open>ReadNextEvent\<close>: the
  value returned by each call with the Reader after it.
\<close>

fun read_trace :: "nat \<Rightarrow> Reader \<Rightarrow> error + (bool \<times> Reader) list" where
  "read_trace 0 r = Inr []"
| "read_trace (Suc n) r =
     (case ReadNextEvent r of
        Inl e \<Rightarrow> Inl e
      | Inr (b, r1) \<Rightarrow>
          (case read_trace n r1 of
             Inl e \<Rightarrow> Inl e
           | Inr xs \<Rightarrow> Inr ((b, r1) # xs)))"

text \<open>
  The arrays of a block of an entry hold at least as many elements as the size of the block
  says, as the storage library writes them.
\<close>

definition leptons_filled :: "LeptonBuffers \<Rightarrow> bool" where
  "leptons_filled b =
     (nat (lepSize b) \<le> length (lepFlavour b) \<and> nat (lepSize b) \<le> length (lepPt b)
      \<and> nat (lepSize b) \<le> length (lepEta b) \<and> nat (lepSize b) \<le> length (lepPhi b)
      \<and> nat (lepSize b) \<le> length (lepIso b))"

definition jets_filled :: "JetBuffers \<Rightarrow> bool" where
  "jets_filled b =
     (nat (jetSize b) \<le> length (jetPt b) \<and> nat (jetSize b) \<le> length (jetEta b)
      \<and> nat (jetSize b) \<le> length (jetPhi b) \<and> nat (jetSize b) \<le> length (jetBTag b)
      \<and> nat (jetSize b) \<le> length (jetFlavour b))"

definition entry_filled :: "bool \<Rightarrow> Entry \<Rightarrow> bool" where
  "entry_filled mc e =
     (leptons_filled (br_lept e) \<and> jets_filled (br_jet e)
      \<and> (if mc then jets_filled (br_jet_jesup e) \<and> jets_filled (br_jet_jesdown e)
          else True))"

text \<open>The read buffers of the Reader hold the entry \<open>e\<close>.\<close>

definition loaded_from :: "Entry \<Rightarrow> Reader \<Rightarrow> bool" where
  "loaded_from e r =
     (lepBuf r = br_lept e \<and> jetBuf r = br_jet e \<and> metPt r = br_met_pt e
      \<and> metPhi r = br_met_phi e \<and> nPV r = br_nvertex e
      \<and> (if isMC r then
            jetJECUpBuf r = br_jet_jesup e \<and> jetJECDownBuf r = br_jet_jesdown e
            \<and> metJECUpPt r = br_met_jesup_pt e \<and> metJECUpPhi r = br_met_jesup_phi e
            \<and> metJECDownPt r = br_met_jesdown_pt e
            \<and> metJECDownPhi r = br_met_jesdown_phi e \<and> rawWeight r = br_evtweight e
          else True))"

text \<open>
  The Reader is bound to tree \<open>k\<close> of the trees \<open>ts\<close> that the names stand for, and its next
  entry is entry \<open>i\<close> of this tree.
\<close>

definition at_entry ::
  "TFile \<Rightarrow> string list \<Rightarrow> TTree list \<Rightarrow> bool \<Rightarrow> nat \<Rightarrow> nat \<Rightarrow> Reader \<Rightarrow> bool" where
  "at_entry f names ts mc k i r =
     (srcFile r = Some f \<and> treeNames r = names \<and> isMC r = mc \<and> curTreeNameIt r = k
      \<and> k < length names \<and> curTree r = Some (ts ! k) \<and> nEntries r = length (ts ! k)
      \<and> curEntry r = i \<and> i \<le> length (ts ! k))"

subsection \<open>Example data\<close>

definition ex_jets :: "real list \<Rightarrow> JetBuffers" where
  "ex_jets pts =
     \<lparr>jetSize = int (length pts), jetPt = pts, jetEta = map (\<lambda>_. 0) pts,
      jetPhi = map (\<lambda>_. 0) pts, jetBTag = map (\<lambda>_. 0) pts, jetFlavour = map (\<lambda>_. 5) pts\<rparr>"

definition ex_leptons :: "real list \<Rightarrow> LeptonBuffers" where
  "ex_leptons pts =
     \<lparr>lepSize = int (length pts), lepFlavour = map (\<lambda>_. 11) pts, lepPt = pts,
      lepEta = map (\<lambda>_. 0) pts, lepPhi = map (\<lambda>_. 0) pts, lepIso = map (\<lambda>_. 0) pts\<rparr>"

text \<open>
  An entry with leptons and jets of the given transverse momenta and the given raw weight;
  the jets of the shifted energy scale are one unit above and below.
\<close>

definition ex_entry :: "real list \<Rightarrow> real list \<Rightarrow> real \<Rightarrow> Entry" where
  "ex_entry lpts jpts w =
     \<lparr>br_lept = ex_leptons lpts, br_jet = ex_jets jpts, br_met_pt = 10, br_met_phi = 1,
      br_nvertex = 7, br_jet_jesup = ex_jets (map (\<lambda>x. x + 1) jpts),
      br_jet_jesdown = ex_jets (map (\<lambda>x. x - 1) jpts),
      br_met_jesup_pt = 11, br_met_jesup_phi = 1, br_met_jesdown_pt = 9,
      br_met_jesdown_phi = 1, br_evtweight = w\<rparr>"

definition ex_mem :: Reader where
  "ex_mem =
     \<lparr>srcFile = None, treeNames = [], curTreeNameIt = 0, isMC = False, curSystType = Nominal,
      curSystDirection = Up, applyBTagReweighting = False, curTree = None, nEntries = 0,
      curEntry = 0, lepBuf = ex_leptons [], jetBuf = ex_jets [], metPt = 0, metPhi = 0,
      nPV = 0, jetJECUpBuf = ex_jets [], jetJECDownBuf = ex_jets [], metJECUpPt = 0,
      metJECUpPhi = 0, metJECDownPt = 0, metJECDownPhi = 0, rawWeight = 0, leptons = [],
      jets = [], jetsJECUp = [], jetsJECDown = [], met = MET 0 0, metJECUp = MET 0 0,
      metJECDown = MET 0 0, weight = 0, weightCached = False, csvCalls = 0\<rparr>"

text \<open>
  A file with four trees: \<open>A\<close> with one entry, \<open>B\<close> with none, \<open>C\<close> with two and
  \<open>D\<close> with three.
\<close>

definition ex_tree_A :: TTree where
  "ex_tree_A = [ex_entry [20, 35] [30, 50, 40] 2]"

definition ex_tree_C :: TTree where
  "ex_tree_C = [ex_entry [25] [60, 45] 3, ex_entry [] [70] 1]"

definition ex_tree_D :: TTree where
  "ex_tree_D = [ex_entry [40] [80, 20] 1, ex_entry [30, 10] [] 2, ex_entry [] [55] 4]"

definition ex_file :: TFile where
  "ex_file =
     \<lparr>IsZombie = False,
      trees = [(''A'', ex_tree_A), (''B'', []), (''C'', ex_tree_C), (''D'', ex_tree_D)]\<rparr>"

text \<open>
  A reweighting model: the factor is 0 for a jet below 35, and 2 (nominal), 3 (up) or 1/2
  (down) otherwise.
\<close>

definition ex_calc :: reweighter where
  "ex_calc j t d =
     (if jet_pt j < 35 then 0
      else if t = Nominal then 2
      else if d = Up then 3 else 1 / 2)"

text \<open>
  The Reader constructed on the trees \<open>A\<close>, \<open>B\<close> and \<open>C\<close> as simulation, the Reader
  after the first call of \<^verbatim>\<open>ReadNextEvent\<close>, then after a call of \<^verbatim>\<open>GetWeight\<close>, then
  after a call of \<^verbatim>\<open>Rewind\<close>.
\<close>

definition ex_start :: Reader where
  "ex_start =
     (case new_Reader ex_mem (Some ex_file) [''A'', ''B'', ''C''] True of
        Inr r \<Rightarrow> r
      | Inl _ \<Rightarrow> ex_mem)"

definition ex_reader :: Reader where
  "ex_reader = (case ReadNextEvent ex_start of Inr (_, r) \<Rightarrow> r | Inl _ \<Rightarrow> ex_mem)"

definition ex_weighted :: Reader where
  "ex_weighted = snd (GetWeight ex_calc ex_reader)"


text \<open>
  A Reader on the trees \<open>C\<close> and \<open>A\<close>, with two entries and one: after construction, after
  the first \<^verbatim>\<open>ReadNextEvent\<close>, and after the calls \<open>ex2_calls\<close>, which read to the end of
  the stream.
\<close>

definition ex2_start :: Reader where
  "ex2_start =
     (case new_Reader ex_mem (Some ex_file) [''C'', ''A''] True of
        Inr r \<Rightarrow> r
      | Inl _ \<Rightarrow> ex_mem)"

definition ex2_first :: Reader where
  "ex2_first = (case ReadNextEvent ex2_start of Inr (_, r) \<Rightarrow> r | Inl _ \<Rightarrow> ex_mem)"

definition ex2_calls :: "op list" where
  "ex2_calls =
     [OpReadNextEvent, OpGetWeight, OpReadNextEvent, OpReadNextEvent, OpReadNextEvent]"

definition ex2_end :: Reader where
  "ex2_end = (case run ex_calc ex2_calls ex2_start of Inr (_, r) \<Rightarrow> r | Inl _ \<Rightarrow> ex_mem)"

text \<open>A Reader on the trees \<open>D\<close> and \<open>C\<close>, with three entries and two.\<close>

definition ex3_start :: Reader where
  "ex3_start =
     (case new_Reader ex_mem (Some ex_file) [''D'', ''C''] True of
        Inr r \<Rightarrow> r
      | Inl _ \<Rightarrow> ex_mem)"

text \<open>A Reader on the tree \<open>A\<close> read as real data, after the first \<^verbatim>\<open>ReadNextEvent\<close>.\<close>

definition ex_data :: Reader where
  "ex_data =
     (case session ex_calc ex_mem (Some ex_file) [''A''] False [OpReadNextEvent] of
        Inr (_, r) \<Rightarrow> r
      | Inl _ \<Rightarrow> ex_mem)"

section \<open>Properties\<close>

subsection \<open>Evaluating the example\<close>

lemmas ex_defs = ex_mem_def ex_file_def ex_tree_A_def ex_tree_C_def ex_tree_D_def ex_entry_def
  ex_jets_def ex_leptons_def

lemmas step_defs = new_Reader_def deref_def GetTree_def Get_def ReadNextEvent_def next_tree_def
  GetEntry_def fill_buffers_def copy_objects_def read_leptons_def read_jets_def lepton_at_def
  jet_at_def sort_objects_def sort_reversed_def jet_less_def lepton_less_def Rewind_def
  noexcept_def SetSystematics_def SwitchBTagReweighting_def session_def

lemma ex_start_ok:
  "new_Reader ex_mem (Some ex_file) [''A'', ''B'', ''C''] True = Inr ex_start"
  by (simp add: ex_start_def step_defs ex_defs)

lemma ex_reader_ok: "ReadNextEvent ex_start = Inr (True, ex_reader)"
  by (simp add: ex_reader_def ex_start_def step_defs ex_defs eval_nat_numeral)

lemma ex_reader_fields:
  "isMC ex_reader" "\<not> weightCached ex_reader" "applyBTagReweighting ex_reader"
  "rawWeight ex_reader = 2" "curSystType ex_reader = Nominal" "curSystDirection ex_reader = Up"
  "csvCalls ex_reader = 0"
  by (simp_all add: ex_reader_def ex_start_def step_defs ex_defs eval_nat_numeral)

lemma ex_reader_event:
  "leptons ex_reader = [Lepton 11 35 0 0 0, Lepton 11 20 0 0 0]"
  "jets ex_reader = [Jet 50 0 0 0 5, Jet 40 0 0 0 5, Jet 30 0 0 0 5]"
  "jetsJECUp ex_reader = [Jet 51 0 0 0 5, Jet 41 0 0 0 5, Jet 31 0 0 0 5]"
  "jetsJECDown ex_reader = [Jet 49 0 0 0 5, Jet 39 0 0 0 5, Jet 29 0 0 0 5]"
  "met ex_reader = MET 10 1" "metJECUp ex_reader = MET 11 1" "metJECDown ex_reader = MET 9 1"
  by (simp_all add: ex_reader_def ex_start_def step_defs ex_defs eval_nat_numeral)

subsection \<open>The order of the collections\<close>

lemma set_insert_sorted: "set (insert_sorted lt x ys) = insert x (set ys)"
  by (induction ys) auto

lemma sorted_insert_sorted:
  fixes f :: "'a \<Rightarrow> real"
  assumes "sorted_wrt (\<lambda>a b. f a \<le> f b) ys"
  shows "sorted_wrt (\<lambda>a b. f a \<le> f b) (insert_sorted (\<lambda>a b. f a < f b) x ys)"
  using assms
proof (induction ys)
  case Nil
  then show ?case by simp
next
  case (Cons y ys)
  show ?case
  proof (cases "f x < f y")
    case True
    with Cons.prems show ?thesis by fastforce
  next
    case False
    with Cons show ?thesis by (auto simp: set_insert_sorted)
  qed
qed

lemma sorted_std_sort:
  fixes f :: "'a \<Rightarrow> real"
  shows "sorted_wrt (\<lambda>a b. f a \<le> f b) (std_sort (\<lambda>a b. f a < f b) xs)"
  by (induction xs) (simp_all add: sorted_insert_sorted)

lemma sorted_sort_reversed:
  fixes f :: "'a \<Rightarrow> real"
  shows "sorted_wrt (\<lambda>a b. f a \<ge> f b) (sort_reversed (\<lambda>a b. f a < f b) v)"
  unfolding sort_reversed_def sorted_wrt_rev by (rule sorted_std_sort)

lemma sorted_leptons:
  "sorted_wrt (\<lambda>a b. lepton_pt a \<ge> lepton_pt b) (sort_reversed lepton_less v)"
proof -
  have eq: "lepton_less = (\<lambda>a b. lepton_pt a < lepton_pt b)"
    by (intro ext) (simp add: lepton_less_def)
  show ?thesis unfolding eq by (rule sorted_sort_reversed)
qed

lemma sorted_jets: "sorted_wrt (\<lambda>a b. jet_pt a \<ge> jet_pt b) (sort_reversed jet_less v)"
proof -
  have eq: "jet_less = (\<lambda>a b. jet_pt a < jet_pt b)"
    by (intro ext) (simp add: jet_less_def)
  show ?thesis unfolding eq by (rule sorted_sort_reversed)
qed

lemma sort_objects_fields:
  "leptons (sort_objects r) = sort_reversed lepton_less (leptons r)"
  "jets (sort_objects r) = sort_reversed jet_less (jets r)"
  "isMC r \<Longrightarrow> jetsJECUp (sort_objects r) = sort_reversed jet_less (jetsJECUp r)"
  "isMC r \<Longrightarrow> jetsJECDown (sort_objects r) = sort_reversed jet_less (jetsJECDown r)"
  "isMC (sort_objects r) = isMC r"
  by (simp_all add: sort_objects_def Let_def)

lemma ReadNextEvent_TrueE:
  assumes "ReadNextEvent r = Inr (True, r')"
  obtains r3 where "r' = (sort_objects r3)\<lparr>weightCached := False\<rparr>"
  using assms unfolding ReadNextEvent_def
  by (auto split: sum.splits prod.splits if_splits)

text \<open>
  Claim C2. After every call of \<^verbatim>\<open>ReadNextEvent\<close> that returns true, the leptons and the
  jets are in non-increasing order of the transverse momentum, and for simulation the jets of
  the two shifted energy scales as well: of two adjacent elements the earlier has a transverse
  momentum greater than or equal to that of the later.
\<close>

theorem ReadNextEvent_sorted:
  assumes "ReadNextEvent r = Inr (True, r')"
  shows "successively (\<lambda>a b. lepton_pt a \<ge> lepton_pt b) (leptons r')
       \<and> successively (\<lambda>a b. jet_pt a \<ge> jet_pt b) (jets r')
       \<and> (if isMC r' then
            successively (\<lambda>a b. jet_pt a \<ge> jet_pt b) (jetsJECUp r')
            \<and> successively (\<lambda>a b. jet_pt a \<ge> jet_pt b) (jetsJECDown r')
          else True)"
proof -
  from assms obtain r3 where r': "r' = (sort_objects r3)\<lparr>weightCached := False\<rparr>"
    by (rule ReadNextEvent_TrueE)
  have l: "successively (\<lambda>a b. lepton_pt a \<ge> lepton_pt b) (leptons r')"
    unfolding r' by (simp add: sort_objects_fields successively_if_sorted_wrt sorted_leptons)
  have j: "successively (\<lambda>a b. jet_pt a \<ge> jet_pt b) (jets r')"
    unfolding r' by (simp add: sort_objects_fields successively_if_sorted_wrt sorted_jets)
  have mc: "isMC r' = isMC r3"
    unfolding r' by (simp add: sort_objects_fields)
  have u: "successively (\<lambda>a b. jet_pt a \<ge> jet_pt b) (jetsJECUp r')" if "isMC r3"
    unfolding r' using that
    by (simp add: sort_objects_fields successively_if_sorted_wrt sorted_jets)
  have d: "successively (\<lambda>a b. jet_pt a \<ge> jet_pt b) (jetsJECDown r')" if "isMC r3"
    unfolding r' using that
    by (simp add: sort_objects_fields successively_if_sorted_wrt sorted_jets)
  show ?thesis using l j u d mc by simp
qed

theorem ReadNextEvent_sorted_witness:
  "ReadNextEvent ex_start = Inr (True, ex_reader)
   \<and> isMC ex_reader
   \<and> successively (\<lambda>a b. lepton_pt a \<ge> lepton_pt b) (leptons ex_reader)
   \<and> successively (\<lambda>a b. jet_pt a \<ge> jet_pt b) (jets ex_reader)
   \<and> successively (\<lambda>a b. jet_pt a \<ge> jet_pt b) (jetsJECUp ex_reader)
   \<and> successively (\<lambda>a b. jet_pt a \<ge> jet_pt b) (jetsJECDown ex_reader)"
  using ReadNextEvent_sorted [OF ex_reader_ok] ex_reader_ok
  by (simp add: ex_reader_fields)

subsection \<open>The accessors\<close>

text \<open>
  Claim C3. For simulation with the variation (JEC, Up), \<^verbatim>\<open>GetJets\<close> and \<^verbatim>\<open>GetMET\<close> return
  the jets and the missing transverse energy of the upward shift; with (JEC, Down) those of
  the downward shift; for every other type of systematics, and for every Reader that is not
  simulation, the nominal ones.
\<close>

theorem variant_selection:
  "(isMC r \<and> curSystType r = JEC \<and> curSystDirection r = Up \<longrightarrow>
      GetJets r = jetsJECUp r \<and> GetMET r = metJECUp r)
   \<and> (isMC r \<and> curSystType r = JEC \<and> curSystDirection r = Down \<longrightarrow>
      GetJets r = jetsJECDown r \<and> GetMET r = metJECDown r)
   \<and> (\<not> isMC r \<or> curSystType r \<noteq> JEC \<longrightarrow> GetJets r = jets r \<and> GetMET r = met r)"
  by (simp add: GetJets_def GetMET_def)

lemma SetSystematics_fields:
  "curSystType (SetSystematics t d r) = t"
  "curSystDirection (SetSystematics t d r) = (if t = Nominal then Up else d)"
  "\<not> weightCached (SetSystematics t d r)"
  "isMC (SetSystematics t d r) = isMC r"
  "jets (SetSystematics t d r) = jets r"
  "jetsJECUp (SetSystematics t d r) = jetsJECUp r"
  "jetsJECDown (SetSystematics t d r) = jetsJECDown r"
  "met (SetSystematics t d r) = met r"
  "metJECUp (SetSystematics t d r) = metJECUp r"
  "metJECDown (SetSystematics t d r) = metJECDown r"
  by (simp_all add: SetSystematics_def Let_def)

theorem variant_selection_witness:
  "map jet_pt (GetJets (SetSystematics JEC Up ex_reader)) = [51, 41, 31]
   \<and> GetMET (SetSystematics JEC Up ex_reader) = MET 11 1
   \<and> map jet_pt (GetJets (SetSystematics JEC Down ex_reader)) = [49, 39, 29]
   \<and> GetMET (SetSystematics JEC Down ex_reader) = MET 9 1
   \<and> map jet_pt (GetJets (SetSystematics Nominal Down ex_reader)) = [50, 40, 30]
   \<and> GetMET (SetSystematics (OtherSyst 0) Down ex_reader) = MET 10 1"
  using variant_selection [of "SetSystematics JEC Up ex_reader"]
    variant_selection [of "SetSystematics JEC Down ex_reader"]
    variant_selection [of "SetSystematics Nominal Down ex_reader"]
    variant_selection [of "SetSystematics (OtherSyst 0) Down ex_reader"]
  by (simp add: SetSystematics_fields ex_reader_fields ex_reader_event)

subsection \<open>The weight\<close>

lemma btag_loop_eq:
  "btag_loop calc t d js (w, n) =
     (w * prod_list (filter (\<lambda>x. x \<noteq> 0) (map (\<lambda>j. calc j t d) js)), n + length js)"
  by (induction js arbitrary: w n) (simp_all add: Let_def mult.assoc)

lemma prod_list_nonzero: "prod_list (filter (\<lambda>x. x \<noteq> 0) (xs :: real list)) \<noteq> 0"
  by (induction xs) simp_all

lemma GetWeight_data: "\<not> isMC r \<Longrightarrow> GetWeight calc r = (1, r)"
  by (simp add: GetWeight_def)

lemma GetWeight_cached: "isMC r \<Longrightarrow> weightCached r \<Longrightarrow> GetWeight calc r = (weight r, r)"
  by (simp add: GetWeight_def)

lemma GetWeight_fresh:
  "isMC r \<Longrightarrow> \<not> weightCached r \<Longrightarrow>
   GetWeight calc r =
     (fst (recomputed calc r),
      r\<lparr>weight := fst (recomputed calc r), csvCalls := snd (recomputed calc r),
        weightCached := True\<rparr>)"
  by (simp add: GetWeight_def case_prod_beta)

lemma GetWeight_after:
  "isMC r \<Longrightarrow>
   weightCached (snd (GetWeight calc r)) \<and> weight (snd (GetWeight calc r)) = fst (GetWeight calc r)
   \<and> isMC (snd (GetWeight calc r))"
  by (cases "weightCached r") (simp_all add: GetWeight_cached GetWeight_fresh)

text \<open>
  Claim C5. When \<^verbatim>\<open>GetWeight\<close> recalculates the weight of a simulated event with the b-tag
  reweighting switched on, the result is the raw weight multiplied by the factor of every
  jet of the nominal collection whose factor is not zero; a jet whose factor is zero is left
  out, so that (in exact arithmetic) the weight is zero only when the raw weight is.
\<close>

theorem GetWeight_recomputed:
  assumes "isMC r" and "\<not> weightCached r" and "applyBTagReweighting r"
  shows "fst (GetWeight calc r) =
           rawWeight r * prod_list (filter (\<lambda>x. x \<noteq> 0)
             (map (\<lambda>j. calc j (curSystType r) (curSystDirection r)) (jets r)))
       \<and> (fst (GetWeight calc r) = 0) = (rawWeight r = 0)"
  using assms by (simp add: GetWeight_fresh recomputed_def btag_loop_eq prod_list_nonzero)

lemma ex_calc_values:
  "ex_calc (Jet 50 0 0 0 5) Nominal Up = 2" "ex_calc (Jet 40 0 0 0 5) Nominal Up = 2"
  "ex_calc (Jet 30 0 0 0 5) Nominal Up = 0"
  by (simp_all add: ex_calc_def)

theorem GetWeight_recomputed_witness:
  "isMC ex_reader \<and> \<not> weightCached ex_reader \<and> applyBTagReweighting ex_reader
   \<and> rawWeight ex_reader = 2
   \<and> map (\<lambda>j. ex_calc j (curSystType ex_reader) (curSystDirection ex_reader)) (jets ex_reader)
       = [2, 2, 0]
   \<and> fst (GetWeight ex_calc ex_reader) = 8"
  using GetWeight_recomputed [of ex_reader ex_calc]
  by (simp add: ex_reader_fields ex_reader_event ex_calc_values)

lemma ex_weighted_fields:
  "isMC ex_weighted" "weightCached ex_weighted" "weight ex_weighted = 8"
  "csvCalls ex_weighted = 3" "applyBTagReweighting ex_weighted"
  by (simp_all add: ex_weighted_def GetWeight_fresh recomputed_def btag_loop_eq
        ex_reader_fields ex_reader_event ex_calc_values)

text \<open>
  Claim C9. \<^verbatim>\<open>SwitchBTagReweighting\<close> changes the member \<open>applyBTagReweighting\<close> and
  nothing else: not the cached weight, not its validity, not the collections, the variation or
  the counters. A weight that \<^verbatim>\<open>GetWeight\<close> has returned is returned again after the
  switch, whatever its argument, and the state (with it the number of calls of the reweighting
  model) is the same after the second call.
\<close>

theorem SwitchBTagReweighting_frame:
  "SwitchBTagReweighting on r = r\<lparr>applyBTagReweighting := on\<rparr>
   \<and> weight (SwitchBTagReweighting on r) = weight r
   \<and> weightCached (SwitchBTagReweighting on r) = weightCached r
   \<and> GetWeight calc (SwitchBTagReweighting on (snd (GetWeight calc r))) =
       (fst (GetWeight calc r), SwitchBTagReweighting on (snd (GetWeight calc r)))
   \<and> (isMC r \<and> weightCached r \<longrightarrow>
        GetWeight calc (SwitchBTagReweighting on r) = (weight r, SwitchBTagReweighting on r))"
proof -
  have sw: "isMC (SwitchBTagReweighting on x) = isMC x"
    "weightCached (SwitchBTagReweighting on x) = weightCached x"
    "weight (SwitchBTagReweighting on x) = weight x" for x
    by (simp_all add: SwitchBTagReweighting_def)
  have a: "GetWeight calc (SwitchBTagReweighting on (snd (GetWeight calc r))) =
       (fst (GetWeight calc r), SwitchBTagReweighting on (snd (GetWeight calc r)))"
  proof (cases "isMC r")
    case True
    from GetWeight_after [OF True, of calc] show ?thesis
      by (simp add: GetWeight_cached sw)
  next
    case False
    then show ?thesis by (simp add: GetWeight_data sw)
  qed
  have b: "GetWeight calc (SwitchBTagReweighting on r) = (weight r, SwitchBTagReweighting on r)"
    if "isMC r" "weightCached r"
    using that by (simp add: GetWeight_cached sw)
  have c: "SwitchBTagReweighting on r = r\<lparr>applyBTagReweighting := on\<rparr>"
    by (simp only: SwitchBTagReweighting_def)
  show ?thesis using a b c sw by blast
qed

theorem SwitchBTagReweighting_frame_witness:
  "isMC ex_weighted \<and> weightCached ex_weighted
   \<and> fst (GetWeight ex_calc (SwitchBTagReweighting False ex_weighted)) = 8
   \<and> csvCalls (snd (GetWeight ex_calc (SwitchBTagReweighting False ex_weighted))) = 3
   \<and> fst (GetWeight ex_calc (SwitchBTagReweighting True ex_weighted)) = 8
   \<and> csvCalls (snd (GetWeight ex_calc (SwitchBTagReweighting True ex_weighted))) = 3"
proof -
  have f: "GetWeight ex_calc (SwitchBTagReweighting False ex_weighted) =
             (weight ex_weighted, SwitchBTagReweighting False ex_weighted)"
    using SwitchBTagReweighting_frame [of False ex_weighted ex_calc] ex_weighted_fields
    by blast
  have t: "GetWeight ex_calc (SwitchBTagReweighting True ex_weighted) =
             (weight ex_weighted, SwitchBTagReweighting True ex_weighted)"
    using SwitchBTagReweighting_frame [of True ex_weighted ex_calc] ex_weighted_fields
    by blast
  have c: "csvCalls (SwitchBTagReweighting on ex_weighted) = 3" for on
    by (simp add: SwitchBTagReweighting_def ex_weighted_fields)
  show ?thesis by (simp add: f t c ex_weighted_fields)
qed

subsection \<open>Rewinding\<close>





subsection \<open>Construction\<close>

lemma new_Reader_empty_valid:
  assumes "\<not> IsZombie f"
  shows "new_Reader mem (Some f) [] mc = Inl (Undefined DerefEnd)"
  using assms by (simp add: new_Reader_def deref_def)

lemma GetTree_no_ConfigurationError: "GetTree name r \<noteq> Inl ConfigurationError"
  by (simp add: GetTree_def split: option.splits)

lemma new_Reader_no_ConfigurationError:
  "new_Reader mem file names mc \<noteq> Inl ConfigurationError"
  by (simp add: new_Reader_def deref_def GetTree_no_ConfigurationError Let_def
        split: option.splits)

text \<open>
  Claim C7, at a Reader constructed on a valid source file with an empty list of names. The
  constructor checks the source file and, in \<^verbatim>\<open>GetTree\<close>, that the tree exists, but not
  that there is a name: it initialises \<^verbatim>\<open>curTreeNameIt\<close> with \<^verbatim>\<open>treeNames.begin()\<close>, which
  is the end of the empty list, and dereferences it for the call of \<^verbatim>\<open>GetTree\<close>. No error is
  raised: the behaviour is undefined, for simulation and for real data.
\<close>

theorem new_Reader_empty_names:
  "\<not> IsZombie ex_file
   \<and> new_Reader ex_mem (Some ex_file) [] True = Inl (Undefined DerefEnd)
   \<and> new_Reader ex_mem (Some ex_file) [] False = Inl (Undefined DerefEnd)"
  by (simp add: new_Reader_def deref_def ex_file_def ex_mem_def)

subsection \<open>The end of the stream\<close>

lemma ReadNextEvent_last:
  assumes "curEntry r = nEntries r" and "Suc (curTreeNameIt r) = length (treeNames r)"
  shows "ReadNextEvent r = Inr (False, r\<lparr>curTreeNameIt := length (treeNames r)\<rparr>)"
  using assms by (simp add: ReadNextEvent_def next_tree_def Let_def)

lemma ReadNextEvent_past_end:
  assumes "curEntry r = nEntries r" and "curTreeNameIt r = length (treeNames r)"
  shows "ReadNextEvent r = Inl (Undefined IncrementEnd)"
  using assms by (simp add: ReadNextEvent_def next_tree_def)

text \<open>
  Claim C8, at a Reader on the single tree \<open>A\<close>, which has one entry. The first call of
  \<^verbatim>\<open>ReadNextEvent\<close> returns true and the second false, leaving the iterator at the end of the
  list. The third call increments the iterator again, at the end of the list: the call does
  not return false, its behaviour is undefined.
\<close>

theorem ReadNextEvent_after_end:
  "(case session ex_calc ex_mem (Some ex_file) [''A''] True [OpReadNextEvent, OpReadNextEvent] of
      Inl e \<Rightarrow> False
    | Inr (as, r) \<Rightarrow>
        as = [Bool True, Bool False] \<and> curEntry r = nEntries r
        \<and> curTreeNameIt r = length (treeNames r))
   \<and> session ex_calc ex_mem (Some ex_file) [''A''] True
        [OpReadNextEvent, OpReadNextEvent, OpReadNextEvent] = Inl (Undefined IncrementEnd)"
  by (simp add: step_defs ex_defs eval_nat_numeral)

subsection \<open>A tree without entries\<close>

text \<open>
  Claim C4, at a Reader on the trees \<open>A\<close> and \<open>B\<close> with one entry and no entry: one call
  of \<^verbatim>\<open>ReadNextEvent\<close> returns true. The second call binds the tree \<open>B\<close> and asks it for
  its entry 0 without looking at the number of its entries: the call does not return false.
\<close>

theorem ReadNextEvent_empty_tree:
  "(case session ex_calc ex_mem (Some ex_file) [''A'', ''B''] True [OpReadNextEvent] of
      Inl e \<Rightarrow> False
    | Inr (as, r) \<Rightarrow> as = [Bool True] \<and> curEntry r = nEntries r)
   \<and> session ex_calc ex_mem (Some ex_file) [''A'', ''B''] True
        [OpReadNextEvent, OpReadNextEvent] = Inl (Undefined EntryOutOfRange)"
  by (simp add: step_defs ex_defs eval_nat_numeral)

subsection \<open>What a call leaves unchanged\<close>

lemma GetTree_frame:
  assumes "GetTree name r = Inr r'"
  shows "srcFile r' = srcFile r \<and> treeNames r' = treeNames r \<and> isMC r' = isMC r
       \<and> curTreeNameIt r' = curTreeNameIt r
       \<and> curSystType r' = curSystType r \<and> curSystDirection r' = curSystDirection r
       \<and> applyBTagReweighting r' = applyBTagReweighting r \<and> csvCalls r' = csvCalls r
       \<and> weightCached r' = weightCached r"
  using assms by (auto simp: GetTree_def split: option.splits)

lemma next_tree_frame:
  assumes "next_tree r = Inr (go, r1)"
  shows "srcFile r1 = srcFile r \<and> treeNames r1 = treeNames r \<and> isMC r1 = isMC r
       \<and> curSystType r1 = curSystType r \<and> curSystDirection r1 = curSystDirection r
       \<and> applyBTagReweighting r1 = applyBTagReweighting r \<and> csvCalls r1 = csvCalls r
       \<and> weightCached r1 = weightCached r"
proof (cases "curEntry r = nEntries r")
  case False
  with assms show ?thesis by (simp add: next_tree_def)
next
  case True
  show ?thesis
  proof (cases "Suc (curTreeNameIt r) = length (treeNames r)")
    case True
    with assms \<open>curEntry r = nEntries r\<close> show ?thesis
      by (auto simp: next_tree_def Let_def split: if_splits)
  next
    case False
    with assms \<open>curEntry r = nEntries r\<close> obtain name r2
      where "GetTree name (r\<lparr>curTreeNameIt := Suc (curTreeNameIt r)\<rparr>) = Inr r2" "r1 = r2"
      by (auto simp: next_tree_def Let_def split: if_splits sum.splits)
    with GetTree_frame [OF this(1)] show ?thesis by simp
  qed
qed

lemma next_tree_stop:
  assumes "next_tree r = Inr (False, r1)"
  shows "r1 = r\<lparr>curTreeNameIt := Suc (curTreeNameIt r)\<rparr>"
  using assms by (auto simp: next_tree_def Let_def split: if_splits sum.splits)

lemma GetEntry_frame:
  assumes "GetEntry i r = Inr r'"
  shows "srcFile r' = srcFile r \<and> treeNames r' = treeNames r \<and> isMC r' = isMC r
       \<and> curSystType r' = curSystType r \<and> curSystDirection r' = curSystDirection r
       \<and> applyBTagReweighting r' = applyBTagReweighting r \<and> csvCalls r' = csvCalls r"
  using assms by (auto simp: GetEntry_def fill_buffers_def Let_def split: option.splits if_splits)

lemma copy_objects_frame:
  assumes "copy_objects r = Inr r'"
  shows "srcFile r' = srcFile r \<and> treeNames r' = treeNames r \<and> isMC r' = isMC r
       \<and> curSystType r' = curSystType r \<and> curSystDirection r' = curSystDirection r
       \<and> applyBTagReweighting r' = applyBTagReweighting r \<and> csvCalls r' = csvCalls r"
  using assms by (auto simp: copy_objects_def Let_def split: sum.splits if_splits)

lemma sort_objects_frame:
  "srcFile (sort_objects r) = srcFile r \<and> treeNames (sort_objects r) = treeNames r
   \<and> curSystType (sort_objects r) = curSystType r
   \<and> curSystDirection (sort_objects r) = curSystDirection r
   \<and> applyBTagReweighting (sort_objects r) = applyBTagReweighting r
   \<and> csvCalls (sort_objects r) = csvCalls r"
  by (simp add: sort_objects_def Let_def)

lemma ReadNextEvent_False:
  assumes "ReadNextEvent r = Inr (False, r')"
  shows "r' = r\<lparr>curTreeNameIt := Suc (curTreeNameIt r)\<rparr>"
proof -
  from assms have "next_tree r = Inr (False, r')"
    by (auto simp: ReadNextEvent_def split: sum.splits prod.splits if_splits)
  then show ?thesis by (rule next_tree_stop)
qed

lemma ReadNextEvent_TrueD:
  assumes "ReadNextEvent r = Inr (True, r')"
  obtains r1 r2 r3 where "next_tree r = Inr (True, r1)"
    and "GetEntry (curEntry r1) r1 = Inr r2"
    and "copy_objects (r2\<lparr>curEntry := Suc (curEntry r2)\<rparr>) = Inr r3"
    and "r' = (sort_objects r3)\<lparr>weightCached := False\<rparr>"
  using assms unfolding ReadNextEvent_def
  by (auto split: sum.splits prod.splits if_splits)

lemma ReadNextEvent_frame:
  assumes "ReadNextEvent r = Inr (b, r')"
  shows "srcFile r' = srcFile r \<and> treeNames r' = treeNames r \<and> isMC r' = isMC r
       \<and> curSystType r' = curSystType r \<and> curSystDirection r' = curSystDirection r
       \<and> applyBTagReweighting r' = applyBTagReweighting r \<and> csvCalls r' = csvCalls r"
proof (cases b)
  case False
  with assms have "r' = r\<lparr>curTreeNameIt := Suc (curTreeNameIt r)\<rparr>"
    by (simp add: ReadNextEvent_False)
  then show ?thesis by simp
next
  case True
  with assms obtain r1 r2 r3 where s: "next_tree r = Inr (True, r1)"
    "GetEntry (curEntry r1) r1 = Inr r2"
    "copy_objects (r2\<lparr>curEntry := Suc (curEntry r2)\<rparr>) = Inr r3"
    "r' = (sort_objects r3)\<lparr>weightCached := False\<rparr>"
    by (auto elim: ReadNextEvent_TrueD)
  from next_tree_frame [OF s(1)] GetEntry_frame [OF s(2)] copy_objects_frame [OF s(3)]
    sort_objects_frame [of r3] sort_objects_fields(5) [of r3] s(4)
  show ?thesis by simp
qed

lemma ReadNextEvent_cache:
  assumes "ReadNextEvent r = Inr (b, r')"
  shows "weightCached r' = (weightCached r \<and> \<not> b)" and "\<not> b \<Longrightarrow> weight r' = weight r"
proof -
  show "weightCached r' = (weightCached r \<and> \<not> b)"
  proof (cases b)
    case False
    with assms have "r' = r\<lparr>curTreeNameIt := Suc (curTreeNameIt r)\<rparr>"
      by (simp add: ReadNextEvent_False)
    with False show ?thesis by simp
  next
    case True
    with assms obtain r3 where "r' = (sort_objects r3)\<lparr>weightCached := False\<rparr>"
      by (auto elim: ReadNextEvent_TrueE)
    with True show ?thesis by simp
  qed
  show "weight r' = weight r" if "\<not> b"
  proof -
    from that assms have "r' = r\<lparr>curTreeNameIt := Suc (curTreeNameIt r)\<rparr>"
      by (simp add: ReadNextEvent_False)
    then show ?thesis by simp
  qed
qed

lemma Rewind_frame:
  assumes "Rewind r = Inr r'"
  shows "srcFile r' = srcFile r \<and> treeNames r' = treeNames r \<and> isMC r' = isMC r
       \<and> curSystType r' = curSystType r \<and> curSystDirection r' = curSystDirection r
       \<and> applyBTagReweighting r' = applyBTagReweighting r \<and> csvCalls r' = csvCalls r
       \<and> weightCached r' = weightCached r"
proof -
  from assms obtain name
    where g: "GetTree name (r\<lparr>curTreeNameIt := 0, curTree := None\<rparr>) = Inr r'"
    by (auto simp: Rewind_def noexcept_def Let_def split: sum.splits error.splits)
  from GetTree_frame [OF g] show ?thesis by simp
qed

lemma GetWeight_frame:
  "srcFile (snd (GetWeight calc r)) = srcFile r \<and> treeNames (snd (GetWeight calc r)) = treeNames r
   \<and> isMC (snd (GetWeight calc r)) = isMC r"
  by (simp add: GetWeight_def case_prod_beta)

lemma SetSystematics_frame:
  "srcFile (SetSystematics t d r) = srcFile r \<and> treeNames (SetSystematics t d r) = treeNames r
   \<and> isMC (SetSystematics t d r) = isMC r
   \<and> applyBTagReweighting (SetSystematics t d r) = applyBTagReweighting r
   \<and> csvCalls (SetSystematics t d r) = csvCalls r \<and> weight (SetSystematics t d r) = weight r"
  by (simp add: SetSystematics_def Let_def)

lemma call_const:
  assumes "call calc c r = Inr (a, r')"
  shows "srcFile r' = srcFile r \<and> treeNames r' = treeNames r \<and> isMC r' = isMC r"
proof (cases c)
  case OpReadNextEvent
  with assms obtain b where "ReadNextEvent r = Inr (b, r')"
    by (auto split: sum.splits)
  from ReadNextEvent_frame [OF this] show ?thesis by simp
next
  case OpRewind
  with assms have "Rewind r = Inr r'" by (auto split: sum.splits)
  from Rewind_frame [OF this] show ?thesis by simp
next
  case (OpSetSystematics t d)
  with assms have "r' = SetSystematics t d r" by auto
  then show ?thesis by (simp add: SetSystematics_frame)
next
  case (OpSwitchBTagReweighting on)
  with assms show ?thesis by (auto simp: SwitchBTagReweighting_def)
next
  case OpGetWeight
  with assms have "r' = snd (GetWeight calc r)" by (auto split: prod.splits)
  with GetWeight_frame [of calc r] show ?thesis by simp
qed

lemma run_const:
  assumes "run calc cs r = Inr (as, r')"
  shows "srcFile r' = srcFile r \<and> treeNames r' = treeNames r \<and> isMC r' = isMC r"
  using assms
proof (induction cs arbitrary: r as)
  case Nil
  then show ?case by simp
next
  case (Cons c cs)
  from Cons.prems obtain a r1 as1 where c: "call calc c r = Inr (a, r1)"
    and r: "run calc cs r1 = Inr (as1, r')"
    by (auto split: sum.splits prod.splits)
  from call_const [OF c] Cons.IH [OF r] show ?case by simp
qed

lemma run_length:
  assumes "run calc cs r = Inr (as, r')"
  shows "length as = length cs"
  using assms
proof (induction cs arbitrary: r as)
  case Nil
  then show ?case by simp
next
  case (Cons c cs)
  from Cons.prems obtain a r1 as1 where "call calc c r = Inr (a, r1)"
    and r: "run calc cs r1 = Inr (as1, r')" and "as = a # as1"
    by (auto split: sum.splits prod.splits)
  with Cons.IH [OF r] show ?case by simp
qed

subsection \<open>The validity of the cached weight\<close>

lemma call_cache:
  assumes "call calc c r = Inr (a, r')" and "c \<noteq> OpGetWeight"
  shows "weightCached r' = (weightCached r \<and> \<not> invalidates c a)"
proof (cases c)
  case OpReadNextEvent
  with assms obtain b where b: "ReadNextEvent r = Inr (b, r')" and a: "a = Bool b"
    by (auto split: sum.splits)
  from ReadNextEvent_cache(1) [OF b] a OpReadNextEvent show ?thesis by simp
next
  case OpRewind
  with assms have "Rewind r = Inr r'" by (auto split: sum.splits)
  from Rewind_frame [OF this] OpRewind show ?thesis by simp
next
  case (OpSetSystematics t d)
  with assms have "r' = SetSystematics t d r" by auto
  with OpSetSystematics show ?thesis by (simp add: SetSystematics_fields)
next
  case (OpSwitchBTagReweighting on)
  with assms show ?thesis by (auto simp: SwitchBTagReweighting_def)
next
  case OpGetWeight
  with assms show ?thesis by simp
qed

lemma call_weight:
  assumes "call calc c r = Inr (a, r')" and "c \<noteq> OpGetWeight" and "c \<noteq> OpRewind"
    and "\<not> invalidates c a"
  shows "weight r' = weight r"
proof (cases c)
  case OpReadNextEvent
  with assms obtain b where b: "ReadNextEvent r = Inr (b, r')" and a: "a = Bool b"
    by (auto split: sum.splits)
  with assms OpReadNextEvent have "\<not> b" by simp
  with ReadNextEvent_cache(2) [OF b] show ?thesis by simp
next
  case (OpSetSystematics t d)
  with assms show ?thesis by simp
next
  case (OpSwitchBTagReweighting on)
  with assms show ?thesis by (auto simp: SwitchBTagReweighting_def)
qed (use assms in simp_all)

lemma run_cache:
  assumes "run calc cs r = Inr (as, r')" and "OpGetWeight \<notin> set cs"
  shows "weightCached r' = (weightCached r \<and> \<not> list_ex (\<lambda>(c, a). invalidates c a) (zip cs as))"
  using assms
proof (induction cs arbitrary: r as)
  case Nil
  then show ?case by simp
next
  case (Cons c cs)
  from Cons.prems obtain a r1 as1 where c: "call calc c r = Inr (a, r1)"
    and r: "run calc cs r1 = Inr (as1, r')" and as: "as = a # as1"
    by (auto split: sum.splits prod.splits)
  from Cons.prems have "c \<noteq> OpGetWeight" and "OpGetWeight \<notin> set cs" by auto
  with call_cache [OF c] Cons.IH [OF r] as show ?case by auto
qed

lemma run_weight:
  assumes "run calc cs r = Inr (as, r')" and "OpGetWeight \<notin> set cs" and "OpRewind \<notin> set cs"
    and "\<not> list_ex (\<lambda>(c, a). invalidates c a) (zip cs as)"
  shows "weight r' = weight r"
  using assms
proof (induction cs arbitrary: r as)
  case Nil
  then show ?case by simp
next
  case (Cons c cs)
  from Cons.prems obtain a r1 as1 where c: "call calc c r = Inr (a, r1)"
    and r: "run calc cs r1 = Inr (as1, r')" and as: "as = a # as1"
    by (auto split: sum.splits prod.splits)
  from Cons.prems as have n: "c \<noteq> OpGetWeight" "OpGetWeight \<notin> set cs" "c \<noteq> OpRewind"
    "OpRewind \<notin> set cs" "\<not> invalidates c a"
    "\<not> list_ex (\<lambda>(c, a). invalidates c a) (zip cs as1)"
    by auto
  from call_weight [OF c n(1) n(3) n(5)] Cons.IH [OF r n(2) n(4) n(6)] show ?case by simp
qed

text \<open>
  A Reader on the single tree \<open>A\<close>, simulation, b-tag reweighting on. After the first
  \<^verbatim>\<open>ReadNextEvent\<close>, \<^verbatim>\<open>GetWeight\<close> calculates the weight 8 with three calls of the
  reweighting model. \<^verbatim>\<open>ReadNextEvent\<close> is then called again and returns false. The
  following \<^verbatim>\<open>GetWeight\<close> does not recalculate: the model has still been called three
  times.
\<close>

theorem weight_cache_counterexample:
  "(case session ex_calc ex_mem (Some ex_file) [''A''] True [OpReadNextEvent, OpGetWeight] of
      Inl e \<Rightarrow> False
    | Inr (as, r) \<Rightarrow> as = [Bool True, Weight 8] \<and> csvCalls r = 3 \<and> length (jets r) = 3)
   \<and> (case session ex_calc ex_mem (Some ex_file) [''A''] True
             [OpReadNextEvent, OpGetWeight, OpReadNextEvent, OpGetWeight] of
         Inl e \<Rightarrow> False
       | Inr (as, r) \<Rightarrow>
           as = [Bool True, Weight 8, Bool False, Weight 8] \<and> csvCalls r = 3)"
  by (simp add: step_defs ex_defs GetWeight_def recomputed_def ex_calc_def eval_nat_numeral)

text \<open>
  Claim C1, amended. Take a simulation Reader on which \<^verbatim>\<open>GetWeight\<close> has just been called,
  and any calls \<open>cs\<close> of the other member functions after it. The next \<^verbatim>\<open>GetWeight\<close>
  recalculates the weight, calling the reweighting model once for every nominal jet when the
  b-tag reweighting is on, if and only if among \<open>cs\<close> there is a \<^verbatim>\<open>ReadNextEvent\<close> that
  returned true or a \<^verbatim>\<open>SetSystematics\<close> (with any arguments, the current variation
  included). Otherwise it changes nothing, so the model is not called, and, when there was no
  \<^verbatim>\<open>Rewind\<close> among \<open>cs\<close>, it returns the weight of the call before.
\<close>

theorem weight_cache:
  assumes "isMC r" and "run calc cs (snd (GetWeight calc r)) = Inr (as, r2)"
    and "OpGetWeight \<notin> set cs"
  shows "weightCached r2 = (\<not> list_ex (\<lambda>(c, a). invalidates c a) (zip cs as))
       \<and> (list_ex (\<lambda>(c, a). invalidates c a) (zip cs as) \<longrightarrow>
            GetWeight calc r2 =
              (fst (recomputed calc r2),
               r2\<lparr>weight := fst (recomputed calc r2), csvCalls := snd (recomputed calc r2),
                  weightCached := True\<rparr>)
            \<and> (applyBTagReweighting r2 \<longrightarrow>
                 csvCalls (snd (GetWeight calc r2)) = csvCalls r2 + length (jets r2)))
       \<and> (\<not> list_ex (\<lambda>(c, a). invalidates c a) (zip cs as) \<longrightarrow>
            snd (GetWeight calc r2) = r2
            \<and> (OpRewind \<notin> set cs \<longrightarrow> fst (GetWeight calc r2) = fst (GetWeight calc r)))"
proof -
  let ?r1 = "snd (GetWeight calc r)"
  let ?inv = "list_ex (\<lambda>(c, a). invalidates c a) (zip cs as)"
  from GetWeight_after [OF assms(1), of calc]
  have r1: "weightCached ?r1" "weight ?r1 = fst (GetWeight calc r)" "isMC ?r1"
    by simp_all
  from run_const [OF assms(2)] r1(3) have mc: "isMC r2" by simp
  from run_cache [OF assms(2,3)] r1(1) have c: "weightCached r2 = (\<not> ?inv)" by simp
  have fresh: "GetWeight calc r2 =
              (fst (recomputed calc r2),
               r2\<lparr>weight := fst (recomputed calc r2), csvCalls := snd (recomputed calc r2),
                  weightCached := True\<rparr>)" if "?inv"
    using that c mc by (simp add: GetWeight_fresh)
  have calls: "csvCalls (snd (GetWeight calc r2)) = csvCalls r2 + length (jets r2)"
    if "?inv" "applyBTagReweighting r2"
    using that fresh by (simp add: recomputed_def btag_loop_eq)
  have same: "snd (GetWeight calc r2) = r2" if "\<not> ?inv"
    using that c mc by (simp add: GetWeight_cached)
  have val: "fst (GetWeight calc r2) = fst (GetWeight calc r)"
    if "\<not> ?inv" "OpRewind \<notin> set cs"
    using that c mc run_weight [OF assms(2,3) that(2,1)] r1(2) by (simp add: GetWeight_cached)
  from c fresh calls same val show ?thesis by blast
qed

lemma ex_weighted_jets: "length (jets ex_weighted) = 3"
  by (simp add: ex_weighted_def GetWeight_fresh ex_reader_fields ex_reader_event)

theorem weight_cache_witness:
  "isMC ex_reader
   \<and> run ex_calc [OpSetSystematics Nominal Up] (snd (GetWeight ex_calc ex_reader))
       = Inr ([Unit], SetSystematics Nominal Up ex_weighted)
   \<and> curSystType ex_weighted = Nominal \<and> curSystDirection ex_weighted = Up
   \<and> csvCalls (SetSystematics Nominal Up ex_weighted) = 3
   \<and> csvCalls (snd (GetWeight ex_calc (SetSystematics Nominal Up ex_weighted))) = 6
   \<and> run ex_calc [OpSwitchBTagReweighting True] (snd (GetWeight ex_calc ex_reader))
       = Inr ([Unit], SwitchBTagReweighting True ex_weighted)
   \<and> csvCalls (SwitchBTagReweighting True ex_weighted) = 3
   \<and> GetWeight ex_calc (SwitchBTagReweighting True ex_weighted)
       = (8, SwitchBTagReweighting True ex_weighted)"
proof -
  have mc: "isMC ex_reader" by (simp add: ex_reader_fields)
  have r1: "run ex_calc [OpSetSystematics Nominal Up] (snd (GetWeight ex_calc ex_reader))
       = Inr ([Unit], SetSystematics Nominal Up ex_weighted)"
    by (simp add: ex_weighted_def)
  have r2: "run ex_calc [OpSwitchBTagReweighting True] (snd (GetWeight ex_calc ex_reader))
       = Inr ([Unit], SwitchBTagReweighting True ex_weighted)"
    by (simp add: ex_weighted_def)
  have s: "curSystType ex_weighted = Nominal" "curSystDirection ex_weighted = Up"
    "fst (GetWeight ex_calc ex_reader) = 8"
    by (simp_all add: ex_weighted_def GetWeight_fresh recomputed_def btag_loop_eq
          ex_reader_fields ex_reader_event ex_calc_values)
  have f: "csvCalls (SetSystematics Nominal Up ex_weighted) = 3"
    "applyBTagReweighting (SetSystematics Nominal Up ex_weighted)"
    "length (jets (SetSystematics Nominal Up ex_weighted)) = 3"
    "csvCalls (SwitchBTagReweighting True ex_weighted) = 3"
    by (simp_all add: SetSystematics_frame SetSystematics_fields ex_weighted_fields
          ex_weighted_jets SwitchBTagReweighting_def)
  have n1: "OpGetWeight \<notin> set [OpSetSystematics Nominal Up]" by simp
  have i1: "list_ex (\<lambda>(c, a). invalidates c a) (zip [OpSetSystematics Nominal Up] [Unit])"
    by simp
  from weight_cache [OF mc r1 n1] i1 f(2)
  have "csvCalls (snd (GetWeight ex_calc (SetSystematics Nominal Up ex_weighted)))
          = csvCalls (SetSystematics Nominal Up ex_weighted)
            + length (jets (SetSystematics Nominal Up ex_weighted))"
    by blast
  with f have a: "csvCalls (snd (GetWeight ex_calc (SetSystematics Nominal Up ex_weighted))) = 6"
    by simp
  have n2: "OpGetWeight \<notin> set [OpSwitchBTagReweighting True]" by simp
  have i2: "\<not> list_ex (\<lambda>(c, a). invalidates c a) (zip [OpSwitchBTagReweighting True] [Unit])"
    by simp
  have w2: "OpRewind \<notin> set [OpSwitchBTagReweighting True]" by simp
  from weight_cache [OF mc r2 n2] i2 w2
  have "snd (GetWeight ex_calc (SwitchBTagReweighting True ex_weighted))
          = SwitchBTagReweighting True ex_weighted
        \<and> fst (GetWeight ex_calc (SwitchBTagReweighting True ex_weighted))
          = fst (GetWeight ex_calc ex_reader)"
    by blast
  with s(3) have b: "GetWeight ex_calc (SwitchBTagReweighting True ex_weighted)
       = (8, SwitchBTagReweighting True ex_weighted)"
    by (simp add: prod_eq_iff)
  from mc r1 r2 s f a b show ?thesis by simp
qed

subsection \<open>The first event after rewinding\<close>

lemma GetTree_agree:
  assumes "same_cursor a b" and "GetTree name a = Inr a1"
  shows "\<exists>b1. GetTree name b = Inr b1 \<and> same_cursor a1 b1"
  using assms by (auto simp: GetTree_def same_cursor_def split: option.splits)

lemma same_cursor_next:
  "same_cursor a b \<Longrightarrow>
   same_cursor (a\<lparr>curTreeNameIt := Suc (curTreeNameIt a)\<rparr>)
     (b\<lparr>curTreeNameIt := Suc (curTreeNameIt b)\<rparr>)"
  by (simp add: same_cursor_def)

lemma next_tree_agree:
  assumes "same_cursor a b" and "next_tree a = Inr (go, a1)"
  shows "\<exists>b1. next_tree b = Inr (go, b1) \<and> same_cursor a1 b1"
proof (cases "curEntry a = nEntries a")
  case False
  with assms show ?thesis by (auto simp: next_tree_def same_cursor_def)
next
  case True
  with assms have eb: "curEntry b = nEntries b" by (simp add: same_cursor_def)
  from assms True have lt: "curTreeNameIt a < length (treeNames a)"
    by (auto simp: next_tree_def split: if_splits)
  with assms have ltb: "curTreeNameIt b < length (treeNames b)" by (simp add: same_cursor_def)
  let ?a = "a\<lparr>curTreeNameIt := Suc (curTreeNameIt a)\<rparr>"
  let ?b = "b\<lparr>curTreeNameIt := Suc (curTreeNameIt b)\<rparr>"
  have sc: "same_cursor ?a ?b" using assms(1) by (rule same_cursor_next)
  show ?thesis
  proof (cases "Suc (curTreeNameIt a) = length (treeNames a)")
    case True
    with assms(1) have "Suc (curTreeNameIt b) = length (treeNames b)"
      by (simp add: same_cursor_def)
    with True assms \<open>curEntry a = nEntries a\<close> eb lt ltb sc show ?thesis
      by (auto simp: next_tree_def Let_def)
  next
    case False
    with assms(1) have fb: "Suc (curTreeNameIt b) \<noteq> length (treeNames b)"
      by (simp add: same_cursor_def)
    from assms(1) have nm: "treeNames b ! Suc (curTreeNameIt b) = treeNames a ! Suc (curTreeNameIt a)"
      by (simp add: same_cursor_def)
    from False assms(2) \<open>curEntry a = nEntries a\<close> lt
    have g: "GetTree (treeNames a ! Suc (curTreeNameIt a)) ?a = Inr a1" and go: "go"
      by (auto simp: next_tree_def deref_def Let_def split: if_splits sum.splits)
    from GetTree_agree [OF sc g] obtain b1
      where "GetTree (treeNames a ! Suc (curTreeNameIt a)) ?b = Inr b1" "same_cursor a1 b1"
      by blast
    with fb eb ltb nm go show ?thesis
      by (auto simp: next_tree_def deref_def Let_def)
  qed
qed

lemma GetEntry_agree:
  assumes "same_cursor a b" and "GetEntry i a = Inr a2"
  shows "\<exists>b2. GetEntry i b = Inr b2 \<and> same_cursor a2 b2 \<and> same_buffers a2 b2"
  using assms
  by (auto simp: GetEntry_def fill_buffers_def same_cursor_def same_buffers_def Let_def
        split: option.splits if_splits)

lemma copy_objects_agree:
  assumes "isMC a = isMC b" and "same_buffers a b" and "copy_objects a = Inr a3"
  shows "\<exists>b3. copy_objects b = Inr b3 \<and> same_event a3 b3 \<and> isMC a3 = isMC b3
           \<and> isMC a3 = isMC a"
proof (cases "isMC a")
  case True
  with assms have eq: "lepBuf b = lepBuf a" "jetBuf b = jetBuf a" "metPt b = metPt a"
    "metPhi b = metPhi a" "nPV b = nPV a" "jetJECUpBuf b = jetJECUpBuf a"
    "jetJECDownBuf b = jetJECDownBuf a" "metJECUpPt b = metJECUpPt a"
    "metJECUpPhi b = metJECUpPhi a" "metJECDownPt b = metJECDownPt a"
    "metJECDownPhi b = metJECDownPhi a" "rawWeight b = rawWeight a" "isMC b"
    by (simp_all add: same_buffers_def)
  from assms(3) True show ?thesis
    by (auto simp: copy_objects_def eq same_event_def Let_def split: sum.splits)
next
  case False
  with assms have eq: "lepBuf b = lepBuf a" "jetBuf b = jetBuf a" "metPt b = metPt a"
    "metPhi b = metPhi a" "nPV b = nPV a" "\<not> isMC b"
    by (simp_all add: same_buffers_def)
  from assms(3) False show ?thesis
    by (auto simp: copy_objects_def eq same_event_def Let_def split: sum.splits)
qed

lemma sort_objects_agree:
  assumes "same_event a b" and "isMC a = isMC b"
  shows "same_event ((sort_objects a)\<lparr>weightCached := False\<rparr>)
           ((sort_objects b)\<lparr>weightCached := False\<rparr>)"
  using assms by (cases "isMC a") (simp_all add: same_event_def sort_objects_def Let_def)

lemma same_buffers_curEntry:
  "same_buffers a b \<Longrightarrow> same_buffers (a\<lparr>curEntry := i\<rparr>) (b\<lparr>curEntry := j\<rparr>)"
  by (simp add: same_buffers_def)

lemma ReadNextEvent_agree:
  assumes "same_cursor a b" and "ReadNextEvent a = Inr (True, a')"
  shows "\<exists>b'. ReadNextEvent b = Inr (True, b') \<and> same_event a' b' \<and> isMC a' = isMC b'"
proof -
  from assms(2) obtain a1 a2 a3 where s: "next_tree a = Inr (True, a1)"
    "GetEntry (curEntry a1) a1 = Inr a2"
    "copy_objects (a2\<lparr>curEntry := Suc (curEntry a2)\<rparr>) = Inr a3"
    "a' = (sort_objects a3)\<lparr>weightCached := False\<rparr>"
    by (rule ReadNextEvent_TrueD)
  from next_tree_agree [OF assms(1) s(1)] obtain b1
    where b1: "next_tree b = Inr (True, b1)" "same_cursor a1 b1" by blast
  from GetEntry_agree [OF b1(2) s(2)] obtain b2
    where b2: "GetEntry (curEntry a1) b1 = Inr b2" "same_cursor a2 b2" "same_buffers a2 b2"
    by blast
  from b1(2) have ce: "curEntry b1 = curEntry a1" by (simp add: same_cursor_def)
  from b2(2) have mc: "isMC (a2\<lparr>curEntry := Suc (curEntry a2)\<rparr>)
      = isMC (b2\<lparr>curEntry := Suc (curEntry b2)\<rparr>)"
    by (simp add: same_cursor_def)
  from copy_objects_agree [OF mc same_buffers_curEntry [OF b2(3)] s(3)] obtain b3
    where b3: "copy_objects (b2\<lparr>curEntry := Suc (curEntry b2)\<rparr>) = Inr b3"
      "same_event a3 b3" "isMC a3 = isMC b3"
    by blast
  have r: "ReadNextEvent b = Inr (True, (sort_objects b3)\<lparr>weightCached := False\<rparr>)"
    by (simp add: ReadNextEvent_def b1(1) ce b2(1) b3(1))
  from sort_objects_agree [OF b3(2,3)] b3(3) s(4) r show ?thesis
    by (auto simp: sort_objects_fields)
qed

lemma new_Reader_cursor:
  assumes "new_Reader mem file names mc = Inr r0"
  shows "\<exists>f t. srcFile r0 = Some f \<and> treeNames r0 = names \<and> names \<noteq> [] \<and> isMC r0 = mc
           \<and> Get f (names ! 0) = Some t \<and> curTreeNameIt r0 = 0 \<and> curTree r0 = Some t
           \<and> nEntries r0 = length t \<and> curEntry r0 = 0 \<and> file = Some f"
  using assms
  by (auto simp: new_Reader_def deref_def GetTree_def Let_def
        split: option.splits if_splits sum.splits)

lemma Rewind_cursor:
  assumes "srcFile r = Some f" and "treeNames r \<noteq> []" and "Get f (treeNames r ! 0) = Some t"
  shows "\<exists>r'. Rewind r = Inr r' \<and> srcFile r' = Some f \<and> treeNames r' = treeNames r
           \<and> isMC r' = isMC r \<and> curTreeNameIt r' = 0 \<and> curTree r' = Some t
           \<and> nEntries r' = length t \<and> curEntry r' = 0
           \<and> curSystType r' = curSystType r \<and> curSystDirection r' = curSystDirection r
           \<and> applyBTagReweighting r' = applyBTagReweighting r"
  using assms by (simp add: Rewind_def deref_def GetTree_def noexcept_def Let_def)

lemma same_event_accessors:
  assumes "same_event a b" and "isMC a = isMC b"
  shows "GetLeptons a = GetLeptons b"
    and "GetJets (SetSystematics t d a) = GetJets (SetSystematics t d b)"
    and "GetMET (SetSystematics t d a) = GetMET (SetSystematics t d b)"
    and "GetNumPV a = GetNumPV b"
  using assms
  by (cases "isMC a"; simp add: same_event_def GetLeptons_def GetJets_def GetMET_def
        GetNumPV_def SetSystematics_fields)+

lemma same_event_weight:
  assumes "same_event a b" and "isMC a = isMC b" and "\<not> weightCached a" and "\<not> weightCached b"
    and "curSystType a = curSystType b" and "curSystDirection a = curSystDirection b"
    and "applyBTagReweighting a = applyBTagReweighting b"
  shows "fst (GetWeight calc a) = fst (GetWeight calc b)"
proof (cases "isMC a")
  case False
  with assms(2) show ?thesis by (simp add: GetWeight_data)
next
  case True
  with assms(1) have "jets a = jets b" "rawWeight a = rawWeight b"
    by (simp_all add: same_event_def)
  with True assms show ?thesis
    by (simp add: GetWeight_fresh recomputed_def btag_loop_eq)
qed

lemma same_event_selected:
  assumes "same_event a b" and "isMC a = isMC b"
  shows "fst (GetWeight calc (SetSystematics t d (SwitchBTagReweighting on a)))
       = fst (GetWeight calc (SetSystematics t d (SwitchBTagReweighting on b)))"
proof -
  let ?a = "SetSystematics t d (SwitchBTagReweighting on a)"
  let ?b = "SetSystematics t d (SwitchBTagReweighting on b)"
  have mc: "isMC ?b = isMC a"
    using assms(2) by (simp add: SetSystematics_fields SwitchBTagReweighting_def)
  have ev: "same_event ?b ?a"
    using assms
    by (cases "isMC a")
       (simp_all add: same_event_def SetSystematics_def SwitchBTagReweighting_def Let_def)
  have "fst (GetWeight calc ?b) = fst (GetWeight calc ?a)"
  proof (rule same_event_weight [OF ev])
    show "isMC ?b = isMC ?a"
      using assms(2) by (simp add: SetSystematics_fields SwitchBTagReweighting_def)
    show "\<not> weightCached ?b" "\<not> weightCached ?a"
      by (simp_all add: SetSystematics_fields)
    show "curSystType ?b = curSystType ?a" "curSystDirection ?b = curSystDirection ?a"
      by (simp_all add: SetSystematics_fields)
    show "applyBTagReweighting ?b = applyBTagReweighting ?a"
      by (simp add: SetSystematics_frame SwitchBTagReweighting_def)
  qed
  then show ?thesis by simp
qed

text \<open>
  Claim C6. Take a newly constructed Reader whose first \<^verbatim>\<open>ReadNextEvent\<close> returns true, and
  any sequence of calls on it that returns, one that reads to the end of the stream for
  instance. Then \<^verbatim>\<open>Rewind\<close> returns, and the \<^verbatim>\<open>ReadNextEvent\<close> after it returns true with
  the event of the very first call: the same leptons, jets (for simulation also those of the
  two shifted energy scales), missing transverse energy and number of vertices, hence the same
  answers of the accessors under every variation, and the same weight: as the two Readers
  stand when the variation and the switch of the b-tag reweighting are those of the first
  call, and after any one selection of the variation and of the switch made on both.
\<close>

theorem Rewind_first_event:
  assumes "new_Reader mem file names mc = Inr r0"
    and "ReadNextEvent r0 = Inr (True, r1)"
    and "run calc cs r0 = Inr (as, r)"
  shows "\<exists>r' r2. Rewind r = Inr r' \<and> ReadNextEvent r' = Inr (True, r2)
           \<and> leptons r2 = leptons r1 \<and> jets r2 = jets r1 \<and> met r2 = met r1
           \<and> nPV r2 = nPV r1
           \<and> (if mc then
                 jetsJECUp r2 = jetsJECUp r1 \<and> jetsJECDown r2 = jetsJECDown r1
                 \<and> metJECUp r2 = metJECUp r1 \<and> metJECDown r2 = metJECDown r1
               else True)
           \<and> (\<forall>t d. GetJets (SetSystematics t d r2) = GetJets (SetSystematics t d r1)
                    \<and> GetMET (SetSystematics t d r2) = GetMET (SetSystematics t d r1))
           \<and> (curSystType r = curSystType r1 \<and> curSystDirection r = curSystDirection r1
                \<and> applyBTagReweighting r = applyBTagReweighting r1 \<longrightarrow>
               fst (GetWeight calc r2) = fst (GetWeight calc r1))
           \<and> (\<forall>t d on.
                 fst (GetWeight calc (SetSystematics t d (SwitchBTagReweighting on r2)))
                 = fst (GetWeight calc (SetSystematics t d (SwitchBTagReweighting on r1))))"
proof -
  from new_Reader_cursor [OF assms(1)] obtain f t
    where c0: "srcFile r0 = Some f" "treeNames r0 = names" "names \<noteq> []" "isMC r0 = mc"
      "Get f (names ! 0) = Some t" "curTreeNameIt r0 = 0" "curTree r0 = Some t"
      "nEntries r0 = length t" "curEntry r0 = 0"
    by blast
  from run_const [OF assms(3)] c0
  have c: "srcFile r = Some f" "treeNames r = names" "isMC r = mc" by simp_all
  from c c0 have "treeNames r \<noteq> []" "Get f (treeNames r ! 0) = Some t" by simp_all
  from Rewind_cursor [OF c(1) this] obtain r'
    where r': "Rewind r = Inr r'" "srcFile r' = Some f" "treeNames r' = treeNames r"
      "isMC r' = isMC r" "curTreeNameIt r' = 0" "curTree r' = Some t"
      "nEntries r' = length t" "curEntry r' = 0"
      "curSystType r' = curSystType r" "curSystDirection r' = curSystDirection r"
      "applyBTagReweighting r' = applyBTagReweighting r"
    by blast
  from c0 c r' have sc: "same_cursor r0 r'" by (simp add: same_cursor_def)
  from ReadNextEvent_agree [OF sc assms(2)] obtain r2
    where r2: "ReadNextEvent r' = Inr (True, r2)" "same_event r1 r2" "isMC r1 = isMC r2"
    by blast
  from ReadNextEvent_frame [OF assms(2)] c0 have mc1: "isMC r1 = mc" by simp
  from r2(2) mc1 have ev: "leptons r2 = leptons r1" "jets r2 = jets r1" "met r2 = met r1"
    "nPV r2 = nPV r1"
    "if mc then jetsJECUp r2 = jetsJECUp r1 \<and> jetsJECDown r2 = jetsJECDown r1
       \<and> metJECUp r2 = metJECUp r1 \<and> metJECDown r2 = metJECDown r1 else True"
    by (simp_all add: same_event_def split: if_splits)
  from same_event_accessors(2,3) [OF r2(2,3)]
  have acc: "GetJets (SetSystematics t d r2) = GetJets (SetSystematics t d r1)
      \<and> GetMET (SetSystematics t d r2) = GetMET (SetSystematics t d r1)" for t d
    by simp
  from ReadNextEvent_frame [OF r2(1)] r'
  have s2: "curSystType r2 = curSystType r" "curSystDirection r2 = curSystDirection r"
    "applyBTagReweighting r2 = applyBTagReweighting r"
    by simp_all
  from ReadNextEvent_cache(1) [OF assms(2)] ReadNextEvent_cache(1) [OF r2(1)]
  have nc: "\<not> weightCached r1" "\<not> weightCached r2" by simp_all
  have w: "fst (GetWeight calc r2) = fst (GetWeight calc r1)"
    if "curSystType r = curSystType r1" "curSystDirection r = curSystDirection r1"
      "applyBTagReweighting r = applyBTagReweighting r1"
    using same_event_weight [OF r2(2,3) nc, of calc] that s2 by simp
  have wa: "fst (GetWeight calc (SetSystematics t d (SwitchBTagReweighting on r2)))
      = fst (GetWeight calc (SetSystematics t d (SwitchBTagReweighting on r1)))" for t d on
    using same_event_selected [OF r2(2,3), of calc t d on] by simp
  from r'(1) r2(1) ev acc w wa show ?thesis by blast
qed

lemma ex2_start_ok:
  "new_Reader ex_mem (Some ex_file) [''C'', ''A''] True = Inr ex2_start"
  by (simp add: ex2_start_def step_defs ex_defs)

lemma ex2_first_ok: "ReadNextEvent ex2_start = Inr (True, ex2_first)"
  by (simp add: ex2_first_def ex2_start_def step_defs ex_defs eval_nat_numeral)

lemma ex2_first_event:
  "leptons ex2_first = [Lepton 11 25 0 0 0]"
  "jets ex2_first = [Jet 60 0 0 0 5, Jet 45 0 0 0 5]"
  "met ex2_first = MET 10 1"
  "jetsJECUp ex2_first = [Jet 61 0 0 0 5, Jet 46 0 0 0 5]"
  "curSystType ex2_first = Nominal" "curSystDirection ex2_first = Up"
  "applyBTagReweighting ex2_first"
  "fst (GetWeight ex_calc ex2_first) = 12"
  by (simp_all add: ex2_first_def ex2_start_def step_defs ex_defs GetWeight_def recomputed_def
        ex_calc_def eval_nat_numeral)

lemma ex2_end_ok:
  "run ex_calc ex2_calls ex2_start =
     Inr ([Bool True, Weight 12, Bool True, Bool True, Bool False], ex2_end)"
  by (simp add: ex2_end_def ex2_calls_def ex2_start_def step_defs ex_defs GetWeight_def
        recomputed_def ex_calc_def eval_nat_numeral)

lemma ex2_end_fields:
  "curSystType ex2_end = Nominal" "curSystDirection ex2_end = Up"
  "applyBTagReweighting ex2_end" "map jet_pt (jets ex2_end) = [50, 40, 30]"
  "curTreeNameIt ex2_end = length (treeNames ex2_end)"
  by (simp_all add: ex2_end_def ex2_calls_def ex2_start_def step_defs ex_defs GetWeight_def
        recomputed_def ex_calc_def eval_nat_numeral)

theorem Rewind_first_event_witness:
  "new_Reader ex_mem (Some ex_file) [''C'', ''A''] True = Inr ex2_start
   \<and> ReadNextEvent ex2_start = Inr (True, ex2_first)
   \<and> run ex_calc ex2_calls ex2_start =
       Inr ([Bool True, Weight 12, Bool True, Bool True, Bool False], ex2_end)
   \<and> map jet_pt (jets ex2_end) = [50, 40, 30]
   \<and> (\<exists>r' r2. Rewind ex2_end = Inr r' \<and> ReadNextEvent r' = Inr (True, r2)
         \<and> leptons r2 = [Lepton 11 25 0 0 0]
         \<and> jets r2 = [Jet 60 0 0 0 5, Jet 45 0 0 0 5]
         \<and> jetsJECUp r2 = [Jet 61 0 0 0 5, Jet 46 0 0 0 5]
         \<and> met r2 = MET 10 1
         \<and> fst (GetWeight ex_calc r2) = 12)"
proof -
  from Rewind_first_event [OF ex2_start_ok ex2_first_ok ex2_end_ok]
  obtain r' r2 where "Rewind ex2_end = Inr r'" "ReadNextEvent r' = Inr (True, r2)"
    "leptons r2 = leptons ex2_first" "jets r2 = jets ex2_first" "met r2 = met ex2_first"
    "jetsJECUp r2 = jetsJECUp ex2_first"
    "fst (GetWeight ex_calc r2) = fst (GetWeight ex_calc ex2_first)"
    by (auto simp: ex2_end_fields ex2_first_event)
  with ex2_start_ok ex2_first_ok ex2_end_ok ex2_end_fields ex2_first_event show ?thesis
    by auto
qed

subsection \<open>All the entries of all the trees\<close>

lemma read_objects_ok:
  assumes "\<And>i. i < n \<Longrightarrow> get i \<noteq> None"
  shows "\<exists>xs. read_objects get n = Inr xs"
  using assms
proof (induction n)
  case 0
  show ?case by simp
next
  case (Suc n)
  from Suc.IH Suc.prems obtain xs where "read_objects get n = Inr xs" by auto
  moreover from Suc.prems [of n] obtain x where "get n = Some x" by auto
  ultimately show ?case by simp
qed

lemma read_leptons_ok:
  assumes "leptons_filled b"
  shows "\<exists>ls. read_leptons b = Inr ls"
  unfolding read_leptons_def
proof (rule read_objects_ok)
  fix i assume "i < nat (lepSize b)"
  with assms show "lepton_at b i \<noteq> None"
    by (simp add: leptons_filled_def lepton_at_def)
qed

lemma read_jets_ok:
  assumes "jets_filled b"
  shows "\<exists>js. read_jets b = Inr js"
  unfolding read_jets_def
proof (rule read_objects_ok)
  fix i assume "i < nat (jetSize b)"
  with assms show "jet_at b i \<noteq> None"
    by (simp add: jets_filled_def jet_at_def)
qed

lemma copy_objects_ok:
  assumes "entry_filled (isMC r) e" and "loaded_from e r"
  shows "\<exists>r3. copy_objects r = Inr r3 \<and> same_cursor r r3 \<and> same_buffers r r3"
proof -
  from assms obtain ls js where l: "read_leptons (lepBuf r) = Inr ls"
    and j: "read_jets (jetBuf r) = Inr js"
    using read_leptons_ok [of "br_lept e"] read_jets_ok [of "br_jet e"]
    by (auto simp: entry_filled_def loaded_from_def)
  show ?thesis
  proof (cases "isMC r")
    case False
    with l j show ?thesis
      by (simp add: copy_objects_def same_cursor_def same_buffers_def)
  next
    case True
    with assms obtain us ds where "read_jets (jetJECUpBuf r) = Inr us"
      and "read_jets (jetJECDownBuf r) = Inr ds"
      using read_jets_ok [of "br_jet_jesup e"] read_jets_ok [of "br_jet_jesdown e"]
      by (auto simp: entry_filled_def loaded_from_def)
    with True l j show ?thesis
      by (simp add: copy_objects_def same_cursor_def same_buffers_def)
  qed
qed

lemma sort_objects_same:
  "same_cursor r ((sort_objects r)\<lparr>weightCached := False\<rparr>)"
  "same_buffers r ((sort_objects r)\<lparr>weightCached := False\<rparr>)"
  by (simp_all add: sort_objects_def same_cursor_def same_buffers_def Let_def)

lemma at_entry_same:
  assumes "same_cursor a b" and "at_entry f names ts mc k i a"
  shows "at_entry f names ts mc k i b"
  using assms by (simp add: same_cursor_def at_entry_def)

lemma loaded_from_same:
  assumes "same_buffers a b" and "isMC a = isMC b" and "loaded_from e a"
  shows "loaded_from e b"
  using assms by (cases "isMC a") (simp_all add: same_buffers_def loaded_from_def)

lemma fill_buffers_loaded:
  "loaded_from e ((fill_buffers e r)\<lparr>curEntry := j\<rparr>)"
  "isMC ((fill_buffers e r)\<lparr>curEntry := j\<rparr>) = isMC r"
  by (simp_all add: fill_buffers_def loaded_from_def Let_def)

lemma fill_buffers_at:
  assumes "at_entry f names ts mc k i r" and "j \<le> length (ts ! k)"
  shows "at_entry f names ts mc k j ((fill_buffers e r)\<lparr>curEntry := j\<rparr>)"
  using assms by (simp add: fill_buffers_def at_entry_def Let_def)

lemma ReadNextEvent_entry:
  assumes n: "next_tree r = Inr (True, r1)"
    and a: "at_entry f names ts mc k i r1"
    and i: "i < length (ts ! k)"
    and e: "entry_filled mc (ts ! k ! i)"
  shows "\<exists>r'. ReadNextEvent r = Inr (True, r') \<and> at_entry f names ts mc k (Suc i) r'
           \<and> loaded_from (ts ! k ! i) r'"
proof -
  let ?e = "ts ! k ! i"
  let ?r2 = "(fill_buffers ?e r1)\<lparr>curEntry := Suc i\<rparr>"
  from a i have g: "GetEntry (curEntry r1) r1 = Inr (fill_buffers ?e r1)"
    and ce: "curEntry (fill_buffers ?e r1) = i" and mc: "isMC r1 = mc"
    by (simp_all add: GetEntry_def at_entry_def fill_buffers_def Let_def)
  from i have "Suc i \<le> length (ts ! k)" by simp
  from fill_buffers_at [OF a this] have a2: "at_entry f names ts mc k (Suc i) ?r2" .
  have l2: "loaded_from ?e ?r2" and mc2: "isMC ?r2 = isMC r1"
    by (rule fill_buffers_loaded)+
  from e mc mc2 have "entry_filled (isMC ?r2) ?e" by simp
  from copy_objects_ok [OF this l2] obtain r3
    where r3: "copy_objects ?r2 = Inr r3" "same_cursor ?r2 r3" "same_buffers ?r2 r3"
    by blast
  let ?r' = "(sort_objects r3)\<lparr>weightCached := False\<rparr>"
  have rd: "ReadNextEvent r = Inr (True, ?r')"
    using n g ce r3(1) by (simp add: ReadNextEvent_def)
  from r3(2) have mc3: "isMC ?r2 = isMC r3" by (simp add: same_cursor_def)
  have a': "at_entry f names ts mc k (Suc i) ?r'"
    using at_entry_same [OF sort_objects_same(1) at_entry_same [OF r3(2) a2]] .
  have l3: "loaded_from ?e r3" using loaded_from_same [OF r3(3) mc3 l2] .
  have mcs: "isMC r3 = isMC ?r'" by (simp add: sort_objects_fields)
  have l': "loaded_from ?e ?r'"
    using loaded_from_same [OF sort_objects_same(2) mcs l3] .
  from rd a' l' show ?thesis by blast
qed

lemma later_nonempty:
  assumes "list_all (\<lambda>t. t \<noteq> []) (tl ts)" and "Suc k < length ts"
  shows "ts ! Suc k \<noteq> []"
proof -
  from assms(2) have k: "k < length (tl ts)" by simp
  with assms(1) have "tl ts ! k \<noteq> []" by (simp add: list_all_length)
  with k show ?thesis by (simp add: nth_tl)
qed

lemma names_nth:
  assumes "map (Get f) names = map Some ts" and "k < length names"
  shows "Get f (names ! k) = Some (ts ! k)"
proof -
  from assms(1) have len: "length ts = length names"
    using map_eq_imp_length_eq [of "Get f" names Some ts] by simp
  from assms(1) have "map (Get f) names ! k = map Some ts ! k" by simp
  with assms(2) len show ?thesis by simp
qed

lemma ReadNextEvent_step:
  assumes names: "map (Get f) names = map Some ts"
    and filled: "list_all (list_all (entry_filled mc)) ts"
    and later: "list_all (\<lambda>t. t \<noteq> []) (tl ts)"
    and a: "at_entry f names ts mc k i r"
    and rest: "drop i (ts ! k) @ concat (drop (Suc k) ts) = e # rest"
  shows "\<exists>r' k' i'. ReadNextEvent r = Inr (True, r') \<and> at_entry f names ts mc k' i' r'
           \<and> drop i' (ts ! k') @ concat (drop (Suc k') ts) = rest \<and> loaded_from e r'"
proof -
  from names have len: "length ts = length names"
    using map_eq_imp_length_eq [of "Get f" names Some ts] by simp
  from filled have ok: "entry_filled mc (ts ! k' ! i')"
    if "k' < length ts" "i' < length (ts ! k')" for k' i'
    using that by (simp add: list_all_length)
  from a have k: "k < length ts" and ile: "i \<le> length (ts ! k)"
    by (simp_all add: at_entry_def len)
  show ?thesis
  proof (cases "i < length (ts ! k)")
    case True
    from a True have n: "next_tree r = Inr (True, r)"
      by (simp add: next_tree_def at_entry_def)
    from True rest have e: "e = ts ! k ! i"
      and r: "drop (Suc i) (ts ! k) @ concat (drop (Suc k) ts) = rest"
      by (simp_all flip: Cons_nth_drop_Suc)
    from ReadNextEvent_entry [OF n a True ok [OF k True]] e r show ?thesis by blast
  next
    case False
    with ile have i: "i = length (ts ! k)" by simp
    with rest have c: "concat (drop (Suc k) ts) = e # rest" by simp
    then have k1: "Suc k < length ts" by (cases "Suc k < length ts") auto
    with later have ne: "ts ! Suc k \<noteq> []" by (rule later_nonempty)
    from k1 have d: "drop (Suc k) ts = ts ! Suc k # drop (Suc (Suc k)) ts"
      by (simp add: Cons_nth_drop_Suc)
    from ne obtain e0 es where t: "ts ! Suc k = e0 # es" by (cases "ts ! Suc k") auto
    with c d have e: "e = ts ! Suc k ! 0"
      and r: "drop (Suc 0) (ts ! Suc k) @ concat (drop (Suc (Suc k)) ts) = rest"
      by simp_all
    from k1 len have g: "Get f (names ! Suc k) = Some (ts ! Suc k)"
      by (simp add: names_nth [OF names])
    let ?r1 = "r\<lparr>curTreeNameIt := Suc k, curTree := Some (ts ! Suc k),
                  nEntries := length (ts ! Suc k), curEntry := 0, weight := 1\<rparr>"
    from a i k1 len g have n: "next_tree r = Inr (True, ?r1)"
      by (simp add: next_tree_def at_entry_def deref_def GetTree_def Let_def)
    from a k1 len have a1: "at_entry f names ts mc (Suc k) 0 ?r1"
      by (simp add: at_entry_def)
    from ne have p: "0 < length (ts ! Suc k)" by simp
    from ReadNextEvent_entry [OF n a1 p ok [OF k1 p]] e r show ?thesis by blast
  qed
qed

lemma ReadNextEvent_stop:
  assumes names: "map (Get f) names = map Some ts"
    and later: "list_all (\<lambda>t. t \<noteq> []) (tl ts)"
    and a: "at_entry f names ts mc k i r"
    and rest: "drop i (ts ! k) @ concat (drop (Suc k) ts) = []"
  shows "ReadNextEvent r = Inr (False, r\<lparr>curTreeNameIt := length (treeNames r)\<rparr>)"
proof -
  from names have len: "length ts = length names"
    using map_eq_imp_length_eq [of "Get f" names Some ts] by simp
  from a rest have i: "curEntry r = nEntries r"
    by (simp add: at_entry_def)
  have "\<not> Suc k < length ts"
  proof
    assume k1: "Suc k < length ts"
    with later have "ts ! Suc k \<noteq> []" by (rule later_nonempty)
    moreover from k1 have "drop (Suc k) ts = ts ! Suc k # drop (Suc (Suc k)) ts"
      by (simp add: Cons_nth_drop_Suc)
    ultimately show False using rest by simp
  qed
  with a len have "Suc (curTreeNameIt r) = length (treeNames r)"
    by (simp add: at_entry_def)
  with i show ?thesis by (rule ReadNextEvent_last)
qed

lemma read_trace_rest:
  assumes names: "map (Get f) names = map Some ts"
    and filled: "list_all (list_all (entry_filled mc)) ts"
    and later: "list_all (\<lambda>t. t \<noteq> []) (tl ts)"
    and a: "at_entry f names ts mc k i r"
    and rest: "drop i (ts ! k) @ concat (drop (Suc k) ts) = es"
  shows "\<exists>xs. read_trace (Suc (length es)) r = Inr xs
           \<and> map fst xs = replicate (length es) True @ [False]
           \<and> list_all2 loaded_from es (map snd (take (length es) xs))"
  using a rest
proof (induction es arbitrary: r k i)
  case Nil
  from ReadNextEvent_stop [OF names later Nil.prems] show ?case by simp
next
  case (Cons e es)
  from ReadNextEvent_step [OF names filled later Cons.prems] obtain r' k' i'
    where s: "ReadNextEvent r = Inr (True, r')" "at_entry f names ts mc k' i' r'"
      "drop i' (ts ! k') @ concat (drop (Suc k') ts) = es" "loaded_from e r'"
    by blast
  from Cons.IH [OF s(2,3)] obtain xs
    where xs: "read_trace (Suc (length es)) r' = Inr xs"
      "map fst xs = replicate (length es) True @ [False]"
      "list_all2 loaded_from es (map snd (take (length es) xs))"
    by blast
  have "read_trace (Suc (length (e # es))) r = Inr ((True, r') # xs)"
    using s(1) xs(1) by simp
  moreover have "map fst ((True, r') # xs) = replicate (length (e # es)) True @ [False]"
    using xs(2) by simp
  moreover have "list_all2 loaded_from (e # es)
      (map snd (take (length (e # es)) ((True, r') # xs)))"
    using xs(3) s(4) by simp
  ultimately show ?case by blast
qed

text \<open>
  A Reader constructed on names that stand for the trees \<open>ts\<close> of the file, where
  the arrays of every entry are filled up to their sizes and every tree after the first has
  at least one entry: as many consecutive calls of \<^verbatim>\<open>ReadNextEvent\<close> as there are entries in
  all the trees return true, the next call returns false, and the calls load the entries of
  the trees one after the other, in the order of the names and of the entries.
\<close>

theorem ReadNextEvent_all_entries:
  assumes "new_Reader mem (Some f) names mc = Inr r0"
    and "map (Get f) names = map Some ts"
    and "list_all (list_all (entry_filled mc)) ts"
    and "list_all (\<lambda>t. t \<noteq> []) (tl ts)"
  shows "\<exists>xs. read_trace (Suc (length (concat ts))) r0 = Inr xs
           \<and> map fst xs = replicate (length (concat ts)) True @ [False]
           \<and> list_all2 loaded_from (concat ts) (map snd (take (length (concat ts)) xs))"
proof -
  from new_Reader_cursor [OF assms(1)] obtain t
    where c: "srcFile r0 = Some f" "treeNames r0 = names" "names \<noteq> []" "isMC r0 = mc"
      "Get f (names ! 0) = Some t" "curTreeNameIt r0 = 0" "curTree r0 = Some t"
      "nEntries r0 = length t" "curEntry r0 = 0"
    by auto
  from assms(2) have len: "length ts = length names"
    using map_eq_imp_length_eq [of "Get f" names Some ts] by simp
  with c(3) have ne: "ts \<noteq> []" by auto
  from c(3) have "Get f (names ! 0) = Some (ts ! 0)"
    by (simp add: names_nth [OF assms(2)])
  with c(5) have t: "t = ts ! 0" by simp
  from c t have a: "at_entry f names ts mc 0 0 r0"
    by (simp add: at_entry_def)
  from ne have "drop 0 (ts ! 0) @ concat (drop (Suc 0) ts) = concat ts"
    by (cases ts) simp_all
  from read_trace_rest [OF assms(2,3,4) a this] show ?thesis .
qed

lemma ex3_start_ok:
  "new_Reader ex_mem (Some ex_file) [''D'', ''C''] True = Inr ex3_start"
  by (simp add: ex3_start_def step_defs ex_defs)

lemma ex3_trees:
  "map (Get ex_file) [''D'', ''C''] = map Some [ex_tree_D, ex_tree_C]"
  "list_all (list_all (entry_filled True)) [ex_tree_D, ex_tree_C]"
  "list_all (\<lambda>t. t \<noteq> []) (tl [ex_tree_D, ex_tree_C])"
  "length (concat [ex_tree_D, ex_tree_C]) = 5"
  "map length [ex_tree_D, ex_tree_C] = [3, 2]"
  "map (jetPt \<circ> br_jet) (concat [ex_tree_D, ex_tree_C]) = [[80, 20], [], [55], [60, 45], [70]]"
  by (simp_all add: Get_def ex_defs entry_filled_def leptons_filled_def jets_filled_def)

lemma loaded_from_jetBuf:
  assumes "list_all2 loaded_from es rs"
  shows "map jetBuf rs = map br_jet es"
  using assms by (induction es rs rule: list_all2_induct) (simp_all add: loaded_from_def)

theorem ReadNextEvent_all_entries_witness:
  "new_Reader ex_mem (Some ex_file) [''D'', ''C''] True = Inr ex3_start
   \<and> map length [ex_tree_D, ex_tree_C] = [3, 2]
   \<and> (\<exists>xs. read_trace 6 ex3_start = Inr xs
         \<and> map fst xs = [True, True, True, True, True, False]
         \<and> map (jetPt \<circ> jetBuf \<circ> snd) (take 5 xs) = [[80, 20], [], [55], [60, 45], [70]])"
proof -
  have "\<exists>xs. read_trace (Suc 5) ex3_start = Inr xs
          \<and> map fst xs = replicate 5 True @ [False]
          \<and> list_all2 loaded_from (concat [ex_tree_D, ex_tree_C]) (map snd (take 5 xs))"
    using ReadNextEvent_all_entries [OF ex3_start_ok ex3_trees(1,2,3)]
    by (simp only: ex3_trees(4))
  then obtain xs where xs: "read_trace (Suc 5) ex3_start = Inr xs"
    "map fst xs = replicate 5 True @ [False]"
    "list_all2 loaded_from (concat [ex_tree_D, ex_tree_C]) (map snd (take 5 xs))"
    by blast
  have six: "Suc 5 = (6::nat)" by simp
  from xs(1) have a: "read_trace 6 ex3_start = Inr xs" by (simp only: six)
  from xs(2) have b: "map fst xs = [True, True, True, True, True, False]"
    by (simp add: eval_nat_numeral)
  from loaded_from_jetBuf [OF xs(3)]
  have "map (jetPt \<circ> jetBuf) (map snd (take 5 xs))
          = map (jetPt \<circ> br_jet) (concat [ex_tree_D, ex_tree_C])"
    by (simp only: map_map [symmetric])
  then have c: "map (jetPt \<circ> jetBuf \<circ> snd) (take 5 xs)
          = [[80, 20], [], [55], [60, 45], [70]]"
    by (simp only: ex3_trees(6) map_map comp_assoc)
  show ?thesis
  proof (intro conjI exI)
    show "new_Reader ex_mem (Some ex_file) [''D'', ''C''] True = Inr ex3_start"
      by (rule ex3_start_ok)
    show "map length [ex_tree_D, ex_tree_C] = [3, 2]" by (rule ex3_trees(5))
    show "read_trace 6 ex3_start = Inr xs" by (rule a)
    show "map fst xs = [True, True, True, True, True, False]" by (rule b)
    show "map (jetPt \<circ> jetBuf \<circ> snd) (take 5 xs) = [[80, 20], [], [55], [60, 45], [70]]"
      by (rule c)
  qed
qed

subsection \<open>Further properties\<close>

lemma ex_data_fields:
  "\<not> isMC ex_data" "map jet_pt (jets ex_data) = [50, 40, 30]" "csvCalls ex_data = 0"
  "curTreeNameIt ex_data = 0" "treeNames ex_data = [''A'']" "curEntry ex_data = 1"
  "nEntries ex_data = 1" "nPV ex_data = 7"
  by (simp_all add: ex_data_def step_defs ex_defs eval_nat_numeral)

text \<open>
  For a Reader that is not simulation, \<^verbatim>\<open>GetWeight\<close> returns 1 and changes
  nothing, whatever the event, the variation and the switch of the b-tag reweighting.
\<close>

theorem GetWeight_real_data:
  assumes "\<not> isMC r"
  shows "GetWeight calc (SwitchBTagReweighting on (SetSystematics t d r))
           = (1, SwitchBTagReweighting on (SetSystematics t d r))
       \<and> GetWeight calc r = (1, r)"
  using assms
  by (simp add: GetWeight_def SwitchBTagReweighting_def SetSystematics_fields)

theorem GetWeight_real_data_witness:
  "\<not> isMC ex_data \<and> map jet_pt (jets ex_data) = [50, 40, 30]
   \<and> fst (GetWeight ex_calc (SwitchBTagReweighting True (SetSystematics JEC Down ex_data))) = 1
   \<and> GetWeight ex_calc ex_data = (1, ex_data)"
  using GetWeight_real_data [of ex_data ex_calc True JEC Down]
  by (simp add: ex_data_fields)

text \<open>
  \<^verbatim>\<open>SetSystematics\<close> stores the type; it stores the direction unless the type is
  \<open>Nominal\<close>, for which the direction is \<open>Up\<close> whatever was asked for. So a later variation
  of the jet energy scale in the stored direction selects the upward shift.
\<close>

theorem SetSystematics_direction:
  "curSystType (SetSystematics t d r) = t
   \<and> curSystDirection (SetSystematics Nominal d r) = Up
   \<and> (t \<noteq> Nominal \<longrightarrow> curSystDirection (SetSystematics t d r) = d)
   \<and> (isMC r \<longrightarrow>
        GetJets ((SetSystematics Nominal Down r)\<lparr>curSystType := JEC\<rparr>) = jetsJECUp r)"
  by (simp add: SetSystematics_def GetJets_def Let_def)

theorem SetSystematics_direction_witness:
  "curSystDirection (SetSystematics JEC Down ex_reader) = Down
   \<and> curSystDirection (SetSystematics Nominal Down ex_reader) = Up
   \<and> isMC ex_reader
   \<and> map jet_pt (GetJets ((SetSystematics Nominal Down ex_reader)\<lparr>curSystType := JEC\<rparr>))
       = [51, 41, 31]"
  using SetSystematics_direction [of JEC Down ex_reader]
    SetSystematics_direction [of Nominal Down ex_reader]
  by (simp add: ex_reader_fields ex_reader_event)

text \<open>
  With a valid source file in which there is no tree of the first name, the
  constructor fails with the error of the missing tree, which carries the name.
\<close>

theorem new_Reader_missing_tree:
  assumes "\<not> IsZombie f" and "Get f name = None"
  shows "new_Reader mem (Some f) (name # names) mc = Inl (MissingPartitionError name)"
  using assms by (simp add: new_Reader_def deref_def GetTree_def)

theorem new_Reader_missing_tree_witness:
  "\<not> IsZombie ex_file \<and> Get ex_file ''E'' = None
   \<and> new_Reader ex_mem (Some ex_file) [''E'', ''A''] True = Inl (MissingPartitionError ''E'')"
proof -
  have a: "\<not> IsZombie ex_file" and b: "Get ex_file ''E'' = None"
    by (simp_all add: ex_file_def Get_def)
  from new_Reader_missing_tree [OF a b] a b show ?thesis by simp
qed

text \<open>
  The call of \<^verbatim>\<open>ReadNextEvent\<close> that finds no entry left in the last tree returns
  false and changes nothing but the iterator, which it leaves at the end of the list of names.
\<close>

theorem ReadNextEvent_end_of_stream:
  assumes "curEntry r = nEntries r" and "Suc (curTreeNameIt r) = length (treeNames r)"
  shows "ReadNextEvent r = Inr (False, r\<lparr>curTreeNameIt := length (treeNames r)\<rparr>)"
  using assms by (simp add: ReadNextEvent_def next_tree_def Let_def)

theorem ReadNextEvent_end_of_stream_witness:
  "curEntry ex_data = nEntries ex_data \<and> Suc (curTreeNameIt ex_data) = length (treeNames ex_data)
   \<and> ReadNextEvent ex_data = Inr (False, ex_data\<lparr>curTreeNameIt := 1\<rparr>)"
  using ReadNextEvent_end_of_stream [of ex_data]
  by (simp add: ex_data_fields)

end
